theory Spec2Isabelle
  imports Main "HOL-Library.DAList"
begin

section \<open>PyPlug: sockets and plugs\<close>

text \<open>
  The embedding follows \<^verbatim>\<open>pyplug/pyplug.py\<close>. Python objects have identity and are
  mutated in place, and the same plug may sit in a socket more than once, so plugs and
  sockets live in a store indexed by object identity and every operation passes the
  store along. An exception is a value: an operation returns \<open>(Inl e, w)\<close> when it
  raises \<open>e\<close> in store \<open>w\<close>, and \<open>(Inr r, w)\<close> when it returns \<open>r\<close>.
\<close>

type_synonym pid = nat
type_synonym sid = nat

datatype error = ValueError | AttributeError

text \<open>
  \<^verbatim>\<open>class Plug\<close>: the two fields \<^verbatim>\<open>Plug.__init__\<close> sets, and \<open>attrs\<close>, the data
  attributes a subclass or a caller puts on the instance (the ones \<^verbatim>\<open>supply\<close> names).
  Python's \<^verbatim>\<open>getattr\<close> raises \<^verbatim>\<open>AttributeError\<close> for an attribute that is not there;
  \<^verbatim>\<open>setattr\<close> creates or overwrites it. The two fields are typed record fields, apart
  from \<open>attrs\<close>: a plug that supplies its own \<^verbatim>\<open>socket\<close>, \<^verbatim>\<open>_supplies\<close> or a method
  under a name is outside the model. Values are of any type \<open>'v\<close>.
\<close>

record 'v Plug =
  socket :: "sid option"
  supplies :: "string \<rightharpoonup> string"
  attrs :: "string \<rightharpoonup> 'v"

definition Plug_init :: "'v Plug" where
  "Plug_init = \<lparr>socket = None, supplies = Map.empty, attrs = Map.empty\<rparr>"

definition getattr_plug :: "'v Plug \<Rightarrow> string \<Rightarrow> error + 'v" where
  "getattr_plug P attr = (case attrs P attr of None \<Rightarrow> Inl AttributeError | Some v \<Rightarrow> Inr v)"

definition setattr_plug :: "'v Plug \<Rightarrow> string \<Rightarrow> 'v \<Rightarrow> 'v Plug" where
  "setattr_plug P attr v = P\<lparr>attrs := (attrs P)(attr \<mapsto> v)\<rparr>"

text \<open>
  \<^verbatim>\<open>class Socket\<close>: \<^verbatim>\<open>_connections\<close> is a \<^verbatim>\<open>defaultdict(list)\<close> from priority to a
  list of plugs, here an association list with distinct keys in insertion order;
  \<^verbatim>\<open>_compiled_connections\<close> is the flattened list.
\<close>

record Socket =
  connections :: "(int, pid list) alist"
  compiled_connections :: "pid list"

definition Socket_init :: "Socket" where
  "Socket_init = \<lparr>connections = DAList.empty, compiled_connections = []\<rparr>"

record 'v world =
  sockets :: "sid \<Rightarrow> Socket"
  plugs :: "pid \<Rightarrow> 'v Plug"

text \<open>
  \<^verbatim>\<open>plug.connected()\<close> and \<^verbatim>\<open>plug.disconnected()\<close> are dispatched on the plug: a
  subclass overrides them and may do anything to the store, or raise. The method table
  is a parameter of \<open>connect\<close> and \<open>disconnect\<close>; \<open>Plug_methods\<close> is the base class,
  whose two hooks are \<^verbatim>\<open>pass\<close>.
\<close>

record 'v methods =
  connected :: "pid \<Rightarrow> 'v world \<Rightarrow> (error + unit) \<times> 'v world"
  disconnected :: "pid \<Rightarrow> 'v world \<Rightarrow> (error + unit) \<times> 'v world"

definition Plug_methods :: "'v methods" where
  "Plug_methods = \<lparr>connected = (\<lambda>plug w. (Inr (), w)), disconnected = (\<lambda>plug w. (Inr (), w))\<rparr>"

subsection \<open>Plug.supply\<close>

text \<open>
  \<^verbatim>\<open>if not alias: alias = name\<close>: \<^verbatim>\<open>None\<close> and the empty string are both falsy.
\<close>

definition Plug_supply :: "pid \<Rightarrow> string \<Rightarrow> string option \<Rightarrow> 'v world \<Rightarrow> (error + unit) \<times> 'v world" where
  "Plug_supply self name alias w =
     (let alias' = (case alias of None \<Rightarrow> name | Some a \<Rightarrow> if a = [] then name else a)
      in (Inr (), w\<lparr>plugs := (plugs w)
            (self := (plugs w self)\<lparr>supplies := (supplies (plugs w self))(alias' \<mapsto> name)\<rparr>)\<rparr>))"

subsection \<open>Socket._compile_connections\<close>

text \<open>
  \<^verbatim>\<open>sorted(self._connections.items())\<close> sorts pairs; the keys of a dict are distinct, so
  the order is the order of the priorities.
\<close>

definition sorted_items :: "(int, pid list) alist \<Rightarrow> (int \<times> pid list) list" where
  "sorted_items d = sort_key fst (DAList.impl_of d)"

definition compile_connections :: "Socket \<Rightarrow> Socket" where
  "compile_connections S =
     S\<lparr>compiled_connections := fold (\<lambda>(_, cs) acc. acc @ cs) (sorted_items (connections S)) []\<rparr>"

subsection \<open>Socket.connect\<close>

text \<open>\<^verbatim>\<open>self._connections[priority]\<close> on a \<^verbatim>\<open>defaultdict(list)\<close> creates an empty bucket
  for a new key.\<close>

definition defaultdict_getitem ::
  "(int, pid list) alist \<Rightarrow> int \<Rightarrow> pid list \<times> (int, pid list) alist" where
  "defaultdict_getitem d k =
     (case DAList.lookup d k of Some b \<Rightarrow> (b, d) | None \<Rightarrow> ([], DAList.update k [] d))"

definition connect :: "'v methods \<Rightarrow> sid \<Rightarrow> pid \<Rightarrow> int \<Rightarrow> 'v world \<Rightarrow> (error + unit) \<times> 'v world" where
  "connect M self plug priority w =
     (let w1 = w\<lparr>plugs := (plugs w)(plug := (plugs w plug)\<lparr>socket := Some self\<rparr>)\<rparr>;
          (b, d) = defaultdict_getitem (connections (sockets w1 self)) priority;
          w2 = w1\<lparr>sockets := (sockets w1)
                 (self := (sockets w1 self)\<lparr>connections := DAList.update priority (b @ [plug]) d\<rparr>)\<rparr>;
          w3 = w2\<lparr>sockets := (sockets w2)(self := compile_connections (sockets w2 self))\<rparr>
      in connected M plug w3)"

subsection \<open>Socket.disconnect\<close>

text \<open>\<^verbatim>\<open>list.remove(x)\<close> removes the first occurrence and raises \<^verbatim>\<open>ValueError\<close> when
  there is none; the \<^verbatim>\<open>while True\<close> loop removes until it raises.\<close>

definition list_remove :: "pid list \<Rightarrow> pid \<Rightarrow> error + pid list" where
  "list_remove xs x = (if x \<in> set xs then Inr (remove1 x xs) else Inl ValueError)"

function remove_loop :: "pid \<Rightarrow> pid list \<Rightarrow> pid list" where
  "remove_loop plug xs =
     (case list_remove xs plug of Inr xs' \<Rightarrow> remove_loop plug xs' | Inl e \<Rightarrow> xs)"
  by pat_completeness auto
termination
proof (relation "measure (\<lambda>(plug, xs). length xs)")
  fix plug :: pid and xs xs' :: "pid list"
  assume "list_remove xs plug = Inr xs'"
  then have mem: "plug \<in> set xs" and eq: "xs' = remove1 plug xs"
    by (auto simp: list_remove_def split: if_splits)
  from mem have "0 < length xs"
    by (rule length_pos_if_in_set)
  with mem eq have "length xs' < length xs"
    by (simp add: length_remove1)
  then show "((plug, xs'), (plug, xs)) \<in> measure (\<lambda>(plug, xs). length xs)"
    by simp
qed simp

declare remove_loop.simps [simp del]

text \<open>The body of the \<^verbatim>\<open>for priority in ...\<close> loop, and the loop over the priorities
  whose bucket holds the plug.\<close>

definition remove_from_bucket :: "pid \<Rightarrow> int \<Rightarrow> (int, pid list) alist \<Rightarrow> (int, pid list) alist" where
  "remove_from_bucket plug priority d =
     (let (b, d') = defaultdict_getitem d priority
      in DAList.update priority (remove_loop plug b) d')"

definition remove_plug :: "pid \<Rightarrow> (int, pid list) alist \<Rightarrow> (int, pid list) alist" where
  "remove_plug plug d =
     fold (remove_from_bucket plug)
          (map fst (filter (\<lambda>item. plug \<in> set (snd item)) (DAList.impl_of d))) d"

definition disconnect :: "'v methods \<Rightarrow> sid \<Rightarrow> pid \<Rightarrow> 'v world \<Rightarrow> (error + unit) \<times> 'v world" where
  "disconnect M self plug w =
     (case disconnected M plug w of
        (Inl e, w1) \<Rightarrow> (Inl e, w1)
      | (Inr u, w1) \<Rightarrow>
          (let w2 = w1\<lparr>sockets := (sockets w1)
                      (self := (sockets w1 self)\<lparr>connections := remove_plug plug (connections (sockets w1 self))\<rparr>)\<rparr>;
               w3 = w2\<lparr>sockets := (sockets w2)(self := compile_connections (sockets w2 self))\<rparr>
           in (Inr (), w3)))"

subsection \<open>Socket._find_supplies\<close>

text \<open>
  The generator walks \<^verbatim>\<open>_compiled_connections\<close>, yields \<^verbatim>\<open>(connection, attr)\<close> for
  each connection whose \<^verbatim>\<open>_supplies\<close> has the name, and raises \<^verbatim>\<open>ValueError\<close> after
  the walk when it yielded nothing. The model returns the yields and the final flag.
\<close>

fun find_supplies_loop ::
  "(pid \<Rightarrow> 'v Plug) \<Rightarrow> string \<Rightarrow> pid list \<Rightarrow> bool \<Rightarrow> (pid \<times> string) list \<times> bool" where
  "find_supplies_loop P name [] supplied = ([], supplied)"
| "find_supplies_loop P name (connection # rest) supplied =
     (case supplies (P connection) name of
        Some attr \<Rightarrow>
          (let (ys, supplied') = find_supplies_loop P name rest True
           in ((connection, attr) # ys, supplied'))
      | None \<Rightarrow> find_supplies_loop P name rest supplied)"

definition find_supplies :: "sid \<Rightarrow> string \<Rightarrow> 'v world \<Rightarrow> (pid \<times> string) list \<times> error option" where
  "find_supplies self name w =
     (let (ys, supplied) =
            find_supplies_loop (plugs w) name (compiled_connections (sockets w self)) False
      in (ys, if \<not> supplied then Some ValueError else None))"

subsection \<open>Socket.__getattr__\<close>

text \<open>
  \<^verbatim>\<open>__getattr__\<close> is what Python calls for a name that ordinary lookup on the socket
  does not find, so the socket's own members never reach it. \<^verbatim>\<open>result\<close> starts as
  \<^verbatim>\<open>None\<close> and is overwritten at every yield.
\<close>

fun getattr_loop :: "(pid \<Rightarrow> 'v Plug) \<Rightarrow> (pid \<times> string) list \<Rightarrow> 'v option \<Rightarrow> error + 'v option" where
  "getattr_loop P [] result = Inr result"
| "getattr_loop P ((connection, attr) # ys) result =
     (case getattr_plug (P connection) attr of
        Inl e \<Rightarrow> Inl e
      | Inr v \<Rightarrow> getattr_loop P ys (Some v))"

definition Socket_getattr :: "sid \<Rightarrow> string \<Rightarrow> 'v world \<Rightarrow> (error + 'v option) \<times> 'v world" where
  "Socket_getattr self name w =
     (case find_supplies self name w of
        (ys, raised) \<Rightarrow>
          (case getattr_loop (plugs w) ys None of
             Inl e \<Rightarrow> (Inl e, w)
           | Inr result \<Rightarrow>
               (case raised of Some e \<Rightarrow> (Inl e, w) | None \<Rightarrow> (Inr result, w))))"

subsection \<open>Socket.__setattr__\<close>

fun setattr_loop :: "(pid \<times> string) list \<Rightarrow> 'v \<Rightarrow> (pid \<Rightarrow> 'v Plug) \<Rightarrow> (pid \<Rightarrow> 'v Plug)" where
  "setattr_loop [] v P = P"
| "setattr_loop ((connection, attr) # ys) v P =
     setattr_loop ys v (P(connection := setattr_plug (P connection) attr v))"

definition Socket_setattr :: "sid \<Rightarrow> string \<Rightarrow> 'v \<Rightarrow> 'v world \<Rightarrow> (error + unit) \<times> 'v world" where
  "Socket_setattr self name v w =
     (case find_supplies self name w of
        (ys, raised) \<Rightarrow>
          (let w' = w\<lparr>plugs := setattr_loop ys v (plugs w)\<rparr>
           in case raised of Some e \<Rightarrow> (Inl e, w') | None \<Rightarrow> (Inr (), w')))"

text \<open>
  The generator is lazy: it tests \<^verbatim>\<open>name in connection._supplies\<close> for the next
  connection only when the loop of \<^verbatim>\<open>__setattr__\<close> asks for the next item, after the
  assignments made so far. \<open>setattr_interleaved\<close> is that interleaved run, with the flag
  \<^verbatim>\<open>supplied\<close>; it agrees with the yields computed first (\<open>setattr_interleaved_eq\<close>
  below), because an assignment changes no supply map.
\<close>

fun setattr_interleaved ::
  "string \<Rightarrow> 'v \<Rightarrow> pid list \<Rightarrow> bool \<Rightarrow> (pid \<Rightarrow> 'v Plug) \<Rightarrow> bool \<times> (pid \<Rightarrow> 'v Plug)" where
  "setattr_interleaved name v [] supplied P = (supplied, P)"
| "setattr_interleaved name v (connection # rest) supplied P =
     (case supplies (P connection) name of
        Some attr \<Rightarrow>
          setattr_interleaved name v rest True (P(connection := setattr_plug (P connection) attr v))
      | None \<Rightarrow> setattr_interleaved name v rest supplied P)"

section \<open>Specification-level notions\<close>

text \<open>
  The plugs of a list that supply a name, in the list's order.
\<close>

definition supplying :: "(pid \<Rightarrow> 'v Plug) \<Rightarrow> string \<Rightarrow> pid list \<Rightarrow> pid list" where
  "supplying P name cs = filter (\<lambda>c. supplies (P c) name \<noteq> None) cs"

text \<open>
  The registry flattened as the specification words it: the priority keys in ascending
  order, each key's bucket in its insertion order, concatenated. \<open>compiled_ok\<close> says
  that the cached resolution order of a socket is that list.
\<close>

definition bucket :: "(int, pid list) alist \<Rightarrow> int \<Rightarrow> pid list" where
  "bucket d k = (case DAList.lookup d k of None \<Rightarrow> [] | Some b \<Rightarrow> b)"

definition priorities :: "(int, pid list) alist \<Rightarrow> int list" where
  "priorities d = sort (map fst (DAList.impl_of d))"

definition flatten :: "(int, pid list) alist \<Rightarrow> pid list" where
  "flatten d = concat (map (bucket d) (priorities d))"

definition compiled_ok :: "Socket \<Rightarrow> bool" where
  "compiled_ok S \<longleftrightarrow> compiled_connections S = flatten (connections S)"

text \<open>The plugs attached to a socket: those in the buckets of its registry.\<close>

definition attached :: "Socket \<Rightarrow> pid set" where
  "attached S = set (concat (map snd (DAList.impl_of (connections S))))"

section \<open>Example stores\<close>

text \<open>
  A store of freshly constructed objects (\<^verbatim>\<open>Socket()\<close>, \<^verbatim>\<open>Plug()\<close>); the assignment
  \<^verbatim>\<open>plug.attr = v\<close> made from outside; and a sequence of statements, which stops at
  the first one that raises. They build the concrete inputs of the examples.
\<close>

definition fresh_world :: "int world" where
  "fresh_world = \<lparr>sockets = (\<lambda>s. Socket_init), plugs = (\<lambda>p. Plug_init)\<rparr>"

definition assign :: "pid \<Rightarrow> string \<Rightarrow> 'v \<Rightarrow> 'v world \<Rightarrow> (error + unit) \<times> 'v world" where
  "assign plug attr v w =
     (Inr (), w\<lparr>plugs := (plugs w)(plug := setattr_plug (plugs w plug) attr v)\<rparr>)"

fun script ::
  "('v world \<Rightarrow> (error + unit) \<times> 'v world) list \<Rightarrow> 'v world \<Rightarrow> (error + unit) \<times> 'v world" where
  "script [] w = (Inr (), w)"
| "script (stmt # rest) w =
     (case stmt w of (Inl e, w') \<Rightarrow> (Inl e, w') | (Inr u, w') \<Rightarrow> script rest w')"

text \<open>
  A subclass of \<^verbatim>\<open>Plug\<close> whose two hooks read an attribute through the socket the
  plug is bound to (\<^verbatim>\<open>def connected(self): self.socket.x\<close>, and the same for
  \<^verbatim>\<open>disconnected\<close>); \<^verbatim>\<open>self.socket\<close> is \<^verbatim>\<open>None\<close> on an unbound plug, where the
  attribute access raises.
\<close>

definition probe :: "string \<Rightarrow> pid \<Rightarrow> int world \<Rightarrow> (error + unit) \<times> int world" where
  "probe name self w =
     (case socket (plugs w self) of
        None \<Rightarrow> (Inl AttributeError, w)
      | Some s \<Rightarrow>
          (case Socket_getattr s name w of
             (Inl e, w') \<Rightarrow> (Inl e, w')
           | (Inr r, w') \<Rightarrow> (Inr (), w')))"

definition Probe_methods :: "string \<Rightarrow> int methods" where
  "Probe_methods name = \<lparr>connected = probe name, disconnected = probe name\<rparr>"

text \<open>
  Sockets used as inputs: socket 0 with plug 1 at priority 0; socket 0 with plug 1 (which
  supplies \<^verbatim>\<open>x\<close>) in it three times, twice at priority 0 and once at priority 5, around
  plug 2 (which supplies \<^verbatim>\<open>y\<close>); and an unattached plug 1 that supplies \<^verbatim>\<open>x\<close>.
\<close>

definition one_attached :: "int world" where
  "one_attached = snd (script [connect Plug_methods 0 1 0] fresh_world)"

definition twice_attached :: "int world" where
  "twice_attached = snd (script
     [Plug_supply 1 ''x'' None, assign 1 ''x'' 7, Plug_supply 2 ''y'' None, assign 2 ''y'' 8,
      connect Plug_methods 0 1 0, connect Plug_methods 0 2 0, connect Plug_methods 0 1 0,
      connect Plug_methods 0 1 5] fresh_world)"

definition probe_ready :: "int world" where
  "probe_ready = snd (script [Plug_supply 1 ''x'' None, assign 1 ''x'' 7] fresh_world)"

text \<open>Socket 0 with plug 1 attached; the plug supplies \<^verbatim>\<open>x\<close> and has no attribute
  \<^verbatim>\<open>x\<close>.\<close>

definition x_unset :: "int world" where
  "x_unset = snd (script [Plug_supply 1 ''x'' None, connect Plug_methods 0 1 0] fresh_world)"

text \<open>Socket 0 with plug 1 at priority 0, which supplies \<^verbatim>\<open>y\<close>, and plug 2 at priority 1,
  which supplies its \<^verbatim>\<open>why\<close> as \<^verbatim>\<open>y\<close>.\<close>

definition fan_out :: "int world" where
  "fan_out = snd (script [Plug_supply 1 ''y'' None, Plug_supply 2 ''why'' (Some ''y''),
                          connect Plug_methods 0 1 0, connect Plug_methods 0 2 1] fresh_world)"

text \<open>Socket 0 with plug 1 attached; the plug has \<^verbatim>\<open>hp = 5\<close> and supplies nothing yet.\<close>

definition hp_attached :: "int world" where
  "hp_attached = snd (script [assign 1 ''hp'' 5, connect Plug_methods 0 1 0] fresh_world)"

text \<open>Two unattached plugs that both supply \<^verbatim>\<open>x\<close>: plug 1 with \<^verbatim>\<open>x = 3\<close>, plug 2 with
  \<^verbatim>\<open>x = 7\<close>.\<close>

definition two_suppliers :: "int world" where
  "two_suppliers = snd (script
     [Plug_supply 1 ''x'' None, assign 1 ''x'' 3, Plug_supply 2 ''x'' None, assign 2 ''x'' 7]
     fresh_world)"

section \<open>The loops in closed form\<close>

lemma find_supplies_loop_yields:
  "fst (find_supplies_loop P name cs b) =
     map (\<lambda>c. (c, the (supplies (P c) name))) (supplying P name cs)"
  by (induction cs arbitrary: b) (auto simp: supplying_def split_beta split: option.splits)

lemma find_supplies_loop_flag:
  "snd (find_supplies_loop P name cs b) = (b \<or> supplying P name cs \<noteq> [])"
  by (induction cs arbitrary: b) (auto simp: supplying_def split_beta split: option.splits)

lemma find_supplies_eq:
  "find_supplies self name w =
     (map (\<lambda>c. (c, the (supplies (plugs w c) name)))
          (supplying (plugs w) name (compiled_connections (sockets w self))),
      if supplying (plugs w) name (compiled_connections (sockets w self)) = []
      then Some ValueError else None)"
  by (simp add: find_supplies_def split_beta find_supplies_loop_yields find_supplies_loop_flag)

lemma supplying_Nil_iff:
  "supplying P name cs = [] \<longleftrightarrow> (\<forall>c\<in>set cs. supplies (P c) name = None)"
  by (auto simp: supplying_def filter_empty_conv)

lemma set_supplying: "set (supplying P name cs) = {c \<in> set cs. supplies (P c) name \<noteq> None}"
  by (simp add: supplying_def)

lemma getattr_loop_defined:
  "\<forall>(c, a)\<in>set ys. attrs (P c) a \<noteq> None \<Longrightarrow>
     getattr_loop P ys r = Inr (if ys = [] then r else attrs (P (fst (last ys))) (snd (last ys)))"
  by (induction P ys r rule: getattr_loop.induct) (auto simp: getattr_plug_def split: option.splits)

lemma getattr_loop_undefined:
  "\<exists>(c, a)\<in>set ys. attrs (P c) a = None \<Longrightarrow> getattr_loop P ys r = Inl AttributeError"
proof (induction ys arbitrary: r)
  case Nil
  then show ?case by simp
next
  case (Cons y ys)
  obtain c a where y: "y = (c, a)" by (cases y)
  show ?case
  proof (cases "attrs (P c) a")
    case None
    then show ?thesis by (simp add: y getattr_plug_def)
  next
    case (Some v)
    with Cons.prems y have "\<exists>(c, a)\<in>set ys. attrs (P c) a = None" by auto
    then have "getattr_loop P ys (Some v) = Inl AttributeError" by (rule Cons.IH)
    with Some show ?thesis by (simp add: y getattr_plug_def)
  qed
qed

lemma setattr_loop_supplies [simp]: "supplies (setattr_loop ys v P c) = supplies (P c)"
  by (induction ys arbitrary: P) (auto simp: setattr_plug_def)

lemma setattr_loop_socket [simp]: "socket (setattr_loop ys v P c) = socket (P c)"
  by (induction ys arbitrary: P) (auto simp: setattr_plug_def)

lemma setattr_loop_attrs:
  "attrs (setattr_loop ys v P c) a = (if (c, a) \<in> set ys then Some v else attrs (P c) a)"
proof (induction ys arbitrary: P)
  case Nil
  show ?case by simp
next
  case (Cons y ys)
  obtain c' a' where y: "y = (c', a')" by (cases y)
  have "attrs (setattr_loop (y # ys) v P c) a =
          attrs (setattr_loop ys v (P(c' := setattr_plug (P c') a' v)) c) a"
    by (simp add: y)
  also have "\<dots> = (if (c, a) \<in> set ys then Some v
                     else attrs ((P(c' := setattr_plug (P c') a' v)) c) a)"
    by (rule Cons.IH)
  also have "\<dots> = (if (c, a) \<in> set (y # ys) then Some v else attrs (P c) a)"
    by (simp add: y setattr_plug_def)
  finally show ?case .
qed

text \<open>
  The write loop run in step with the generator gives the flag and the store of the
  loop over the yields computed beforehand.
\<close>

lemma find_supplies_loop_cong:
  "(\<And>c. supplies (P' c) = supplies (P c)) \<Longrightarrow>
     find_supplies_loop P' name cs b = find_supplies_loop P name cs b"
  by (induction cs arbitrary: b) (auto split: option.splits)

lemma setattr_interleaved_eq:
  "setattr_interleaved name v cs b P =
     (snd (find_supplies_loop P name cs b), setattr_loop (fst (find_supplies_loop P name cs b)) v P)"
proof (induction cs arbitrary: b P)
  case Nil
  show ?case by simp
next
  case (Cons c cs)
  show ?case
  proof (cases "supplies (P c) name")
    case None
    then show ?thesis by (simp add: Cons.IH)
  next
    case (Some attr)
    let ?P = "P(c := setattr_plug (P c) attr v)"
    have eq: "find_supplies_loop ?P name cs True = find_supplies_loop P name cs True"
      by (rule find_supplies_loop_cong) (simp add: setattr_plug_def)
    have "setattr_interleaved name v (c # cs) b P = setattr_interleaved name v cs True ?P"
      using Some by simp
    also have "\<dots> = (snd (find_supplies_loop ?P name cs True),
        setattr_loop (fst (find_supplies_loop ?P name cs True)) v ?P)"
      by (rule Cons.IH)
    also have "\<dots> = (snd (find_supplies_loop P name cs True),
        setattr_loop (fst (find_supplies_loop P name cs True)) v ?P)"
      by (simp only: eq)
    also have "\<dots> = (snd (find_supplies_loop P name (c # cs) b),
        setattr_loop (fst (find_supplies_loop P name (c # cs) b)) v P)"
      using Some by (simp add: split_beta)
    finally show ?thesis .
  qed
qed

lemma Socket_setattr_interleaved:
  "Socket_setattr self name v w =
     (case setattr_interleaved name v (compiled_connections (sockets w self)) False (plugs w) of
        (supplied, P) \<Rightarrow>
          if \<not> supplied then (Inl ValueError, w\<lparr>plugs := P\<rparr>) else (Inr (), w\<lparr>plugs := P\<rparr>))"
  by (simp add: Socket_setattr_def find_supplies_def setattr_interleaved_eq split_beta Let_def)

text \<open>The two loops of the registry: extending the compiled list, and removing a plug
  from a bucket until \<^verbatim>\<open>remove\<close> raises.\<close>

lemma fold_extend: "fold (\<lambda>(_, cs) acc. acc @ cs) xs acc0 = acc0 @ concat (map snd xs)"
  by (induction xs arbitrary: acc0) (auto split: prod.splits)

lemma remove_loop_removeAll: "remove_loop plug xs = removeAll plug xs"
proof (induction plug xs rule: remove_loop.induct)
  case (1 plug xs)
  show ?case
  proof (cases "plug \<in> set xs")
    case True
    then have "remove_loop plug xs = remove_loop plug (remove1 plug xs)"
      by (subst remove_loop.simps) (simp add: list_remove_def)
    also have "\<dots> = removeAll plug (remove1 plug xs)"
      using True by (intro "1.IH") (simp add: list_remove_def)
    also have "\<dots> = removeAll plug xs"
      by (induction xs) auto
    finally show ?thesis .
  next
    case False
    then show ?thesis
      by (subst remove_loop.simps) (simp add: list_remove_def)
  qed
qed

section \<open>The registry and its compiled order\<close>

lemma map_insort_key: "map f (insort_key f x ys) = insort (f x) (map f ys)"
  by (induction ys) auto

lemma map_sort_key: "map f (sort_key f xs) = sort (map f xs)"
  by (induction xs) (auto simp: map_insort_key)

lemma bucket_of_item: "(k, b) \<in> set (DAList.impl_of d) \<Longrightarrow> bucket d k = b"
  by (simp add: bucket_def DAList.lookup.rep_eq map_of_is_SomeI)

lemma lookup_iff_item: "DAList.lookup d k = Some b \<longleftrightarrow> (k, b) \<in> set (DAList.impl_of d)"
  by (simp add: DAList.lookup.rep_eq map_of_eq_Some_iff)

lemma concat_sorted_items: "concat (map snd (sorted_items d)) = flatten d"
proof -
  have "map snd (sorted_items d) = map (bucket d \<circ> fst) (sorted_items d)"
    by (rule map_cong) (auto simp: sorted_items_def bucket_of_item)
  also have "\<dots> = map (bucket d) (priorities d)"
    by (simp add: sorted_items_def priorities_def map_sort_key flip: map_map)
  finally show ?thesis
    by (simp add: flatten_def)
qed

lemma compile_connections_ok [simp]: "compiled_ok (compile_connections S)"
  by (simp add: compiled_ok_def compile_connections_def fold_extend concat_sorted_items)

lemma connections_compile [simp]: "connections (compile_connections S) = connections S"
  by (simp add: compile_connections_def)

lemma compiled_compile: "compiled_connections (compile_connections S) = flatten (connections S)"
  by (simp add: compile_connections_def fold_extend concat_sorted_items)

lemma set_flatten: "set (flatten d) = {c. \<exists>k b. DAList.lookup d k = Some b \<and> c \<in> set b}"
proof -
  have "set (flatten d) = (\<Union>k\<in>fst ` set (DAList.impl_of d). set (bucket d k))"
    by (simp add: flatten_def priorities_def)
  also have "\<dots> = {c. \<exists>k b. DAList.lookup d k = Some b \<and> c \<in> set b}"
    by (force simp: lookup_iff_item bucket_of_item)
  finally show ?thesis .
qed

text \<open>The removal loops of \<^verbatim>\<open>disconnect\<close>: every bucket loses every occurrence of the plug.\<close>

lemma lookup_remove_from_bucket:
  "DAList.lookup (remove_from_bucket plug priority d) k =
     (if k = priority then Some (removeAll plug (bucket d priority)) else DAList.lookup d k)"
  by (auto simp: remove_from_bucket_def defaultdict_getitem_def bucket_def remove_loop_removeAll
      split: option.splits)

lemma lookup_fold_remove:
  "DAList.lookup (fold (remove_from_bucket plug) ks d) k =
     (if k \<in> set ks then Some (removeAll plug (bucket d k)) else DAList.lookup d k)"
proof (induction ks arbitrary: d)
  case Nil
  show ?case by simp
next
  case (Cons a ks)
  let ?d = "remove_from_bucket plug a d"
  have buck: "bucket ?d k = (if k = a then removeAll plug (bucket d a) else bucket d k)" for k
    by (simp add: bucket_def lookup_remove_from_bucket)
  have "DAList.lookup (fold (remove_from_bucket plug) (a # ks) d) k =
          DAList.lookup (fold (remove_from_bucket plug) ks ?d) k"
    by simp
  also have "\<dots> = (if k \<in> set ks then Some (removeAll plug (bucket ?d k)) else DAList.lookup ?d k)"
    by (rule Cons.IH)
  also have "\<dots> = (if k \<in> set (a # ks) then Some (removeAll plug (bucket d k)) else DAList.lookup d k)"
    by (simp add: buck lookup_remove_from_bucket)
  finally show ?case .
qed

lemma lookup_remove_plug:
  "DAList.lookup (remove_plug plug d) k = map_option (removeAll plug) (DAList.lookup d k)"
proof -
  define ks where "ks = map fst (filter (\<lambda>item. plug \<in> set (snd item)) (DAList.impl_of d))"
  have ks_iff: "k \<in> set ks \<longleftrightarrow> (\<exists>b. DAList.lookup d k = Some b \<and> plug \<in> set b)"
    unfolding ks_def by (force simp: lookup_iff_item)
  have "remove_plug plug d = fold (remove_from_bucket plug) ks d"
    by (simp add: remove_plug_def ks_def)
  then have "DAList.lookup (remove_plug plug d) k =
      (if k \<in> set ks then Some (removeAll plug (bucket d k)) else DAList.lookup d k)"
    by (simp add: lookup_fold_remove)
  then show ?thesis
    using ks_iff by (cases "DAList.lookup d k") (auto simp: bucket_def)
qed

lemma bucket_remove_plug: "bucket (remove_plug plug d) k = removeAll plug (bucket d k)"
  by (simp add: bucket_def lookup_remove_plug split: option.splits)

lemma compiled_ok_members:
  "compiled_ok S \<Longrightarrow>
     set (compiled_connections S) = {c. \<exists>k b. DAList.lookup (connections S) k = Some b \<and> c \<in> set b}"
  by (simp add: compiled_ok_def set_flatten)

lemma attached_iff:
  "c \<in> attached S \<longleftrightarrow> (\<exists>k b. DAList.lookup (connections S) k = Some b \<and> c \<in> set b)"
proof
  assume "c \<in> attached S"
  then obtain kb where kb: "kb \<in> set (DAList.impl_of (connections S))" "c \<in> set (snd kb)"
    by (auto simp: attached_def)
  then have "DAList.lookup (connections S) (fst kb) = Some (snd kb)"
    by (simp add: lookup_iff_item)
  with kb(2) show "\<exists>k b. DAList.lookup (connections S) k = Some b \<and> c \<in> set b"
    by blast
next
  assume "\<exists>k b. DAList.lookup (connections S) k = Some b \<and> c \<in> set b"
  then obtain k b where "(k, b) \<in> set (DAList.impl_of (connections S))" "c \<in> set b"
    by (auto simp: lookup_iff_item)
  then have "\<exists>kb\<in>set (DAList.impl_of (connections S)). c \<in> set (snd kb)"
    by (intro bexI [of _ "(k, b)"]) simp_all
  then show "c \<in> attached S"
    by (simp add: attached_def)
qed

lemma compiled_ok_attached: "compiled_ok S \<Longrightarrow> set (compiled_connections S) = attached S"
proof (rule set_eqI)
  fix c
  assume "compiled_ok S"
  then show "c \<in> set (compiled_connections S) \<longleftrightarrow> c \<in> attached S"
    unfolding attached_iff by (simp add: compiled_ok_members)
qed

lemma Socket_init_ok: "compiled_ok Socket_init"
  by (simp add: compiled_ok_def Socket_init_def flatten_def priorities_def DAList.empty.rep_eq)

text \<open>The definitions of the model, for evaluating it on a concrete store.\<close>

lemmas run_defs =
  fresh_world_def assign_def Socket_init_def Plug_init_def Plug_methods_def Plug_supply_def
  connect_def disconnect_def defaultdict_getitem_def compile_connections_def sorted_items_def
  remove_plug_def remove_from_bucket_def remove_loop_removeAll find_supplies_def
  Socket_getattr_def Socket_setattr_def getattr_plug_def setattr_plug_def
  DAList.update.rep_eq DAList.empty.rep_eq DAList.lookup.rep_eq
  compiled_ok_def flatten_def bucket_def priorities_def supplying_def attached_def

section \<open>Attribute reads and writes\<close>

text \<open>
  What a read does, by cases on the plugs of the resolution order that supply the name:
  none of them, all of them with the mapped attribute set, or one of them without it.
\<close>

lemma Socket_getattr_cases:
  "Socket_getattr self name w =
     (let ms = supplying (plugs w) name (compiled_connections (sockets w self)) in
      if ms = [] then (Inl ValueError, w)
      else if \<forall>c\<in>set ms. attrs (plugs w c) (the (supplies (plugs w c) name)) \<noteq> None
      then (Inr (attrs (plugs w (last ms)) (the (supplies (plugs w (last ms)) name))), w)
      else (Inl AttributeError, w))"
proof -
  let ?ms = "supplying (plugs w) name (compiled_connections (sockets w self))"
  let ?ys = "map (\<lambda>c. (c, the (supplies (plugs w c) name))) ?ms"
  show ?thesis
  proof (cases "\<forall>c\<in>set ?ms. attrs (plugs w c) (the (supplies (plugs w c) name)) \<noteq> None")
    case True
    then have "\<forall>(c, a)\<in>set ?ys. attrs (plugs w c) a \<noteq> None" by auto
    then have "getattr_loop (plugs w) ?ys None =
        Inr (if ?ys = [] then None else attrs (plugs w (fst (last ?ys))) (snd (last ?ys)))"
      by (rule getattr_loop_defined)
    then show ?thesis
      using True by (simp add: Socket_getattr_def find_supplies_eq Let_def last_map)
  next
    case False
    then have "\<exists>(c, a)\<in>set ?ys. attrs (plugs w c) a = None" by auto
    then have "getattr_loop (plugs w) ?ys None = Inl AttributeError"
      by (rule getattr_loop_undefined)
    moreover from False have "?ms \<noteq> []" by auto
    ultimately show ?thesis
      using False by (simp add: Socket_getattr_def find_supplies_eq Let_def)
  qed
qed

text \<open>
  Claim C10. An attribute read through the socket changes nothing: the store after the
  read is the store before it, so the registry, the compiled resolution order and every
  plug's supply map, back-reference and attributes are as they were. This holds for
  every name, supplied or not, and also when the read raises.
\<close>

theorem getattr_frame: "snd (Socket_getattr self name w) = w"
  by (simp add: Socket_getattr_cases Let_def)

lemma setattr_unsupplied_order:
  assumes "\<forall>c\<in>set (compiled_connections (sockets w self)). supplies (plugs w c) name = None"
  shows "Socket_setattr self name v w = (Inl ValueError, w)"
proof -
  from assms have "supplying (plugs w) name (compiled_connections (sockets w self)) = []"
    by (simp add: supplying_Nil_iff)
  then show ?thesis
    by (simp add: Socket_setattr_def find_supplies_eq)
qed

text \<open>
  Claim C2, as amended. A write of a name that no plug of the resolution order supplies
  (as on a socket with no plugs at all) raises \<open>ValueError\<close>, the error of
  \<^verbatim>\<open>_find_supplies\<close>, and leaves the store unchanged; so does, on a socket whose
  resolution order is compiled, a write of a name that no attached plug supplies. It is
  not a silent no-op: the generator raises after its walk in \<^verbatim>\<open>__setattr__\<close> exactly as
  in \<^verbatim>\<open>__getattr__\<close>.
\<close>

theorem setattr_unsupplied:
  "((\<forall>c\<in>set (compiled_connections (sockets w self)). supplies (plugs w c) name = None) \<longrightarrow>
      Socket_setattr self name v w = (Inl ValueError, w)) \<and>
   (compiled_ok (sockets w self) \<and>
    (\<forall>c\<in>attached (sockets w self). supplies (plugs w c) name = None) \<longrightarrow>
      Socket_setattr self name v w = (Inl ValueError, w))"
proof (intro conjI impI)
  assume "\<forall>c\<in>set (compiled_connections (sockets w self)). supplies (plugs w c) name = None"
  then show "Socket_setattr self name v w = (Inl ValueError, w)"
    by (rule setattr_unsupplied_order)
next
  assume "compiled_ok (sockets w self) \<and>
    (\<forall>c\<in>attached (sockets w self). supplies (plugs w c) name = None)"
  then have "\<forall>c\<in>set (compiled_connections (sockets w self)). supplies (plugs w c) name = None"
    by (simp add: compiled_ok_attached)
  then show "Socket_setattr self name v w = (Inl ValueError, w)"
    by (rule setattr_unsupplied_order)
qed

text \<open>
  A socket with one plug that supplies \<^verbatim>\<open>x\<close>: writing \<^verbatim>\<open>z\<close> raises and changes nothing.
\<close>

theorem setattr_unsupplied_witness:
  "Socket_setattr 0 ''z'' 5 x_unset = (Inl ValueError, x_unset)"
proof -
  have "compiled_ok (sockets x_unset 0) \<and>
    (\<forall>c\<in>attached (sockets x_unset 0). supplies (plugs x_unset c) ''z'' = None)"
    by (simp add: x_unset_def run_defs)
  with setattr_unsupplied [of x_unset 0 "''z''" 5] show ?thesis
    by blast
qed

text \<open>
  The claim as stated (no error is raised) fails on a socket with no plugs:
  \<^verbatim>\<open>Socket().z = 5\<close> raises \<open>ValueError\<close>.
\<close>

theorem setattr_unsupplied_raises: "fst (Socket_setattr 0 ''z'' 5 fresh_world) = Inl ValueError"
  by (simp add: run_defs)

lemma getattr_errors_order:
  "(fst (Socket_getattr self name w) = Inl ValueError \<longleftrightarrow>
      (\<forall>c\<in>set (compiled_connections (sockets w self)). supplies (plugs w c) name = None)) \<and>
   ((\<exists>c\<in>set (compiled_connections (sockets w self)). supplies (plugs w c) name \<noteq> None) \<and>
    (\<forall>c\<in>set (compiled_connections (sockets w self)). \<forall>a.
        supplies (plugs w c) name = Some a \<longrightarrow> attrs (plugs w c) a \<noteq> None) \<longrightarrow>
      (\<exists>v. fst (Socket_getattr self name w) = Inr (Some v))) \<and>
   ((\<exists>c\<in>set (compiled_connections (sockets w self)). \<exists>a.
        supplies (plugs w c) name = Some a \<and> attrs (plugs w c) a = None) \<longrightarrow>
      fst (Socket_getattr self name w) = Inl AttributeError)"
proof -
  let ?cs = "compiled_connections (sockets w self)"
  let ?ms = "supplying (plugs w) name ?cs"
  have none: "?ms = [] \<longleftrightarrow> (\<forall>c\<in>set ?cs. supplies (plugs w c) name = None)"
    by (rule supplying_Nil_iff)
  have 1: "fst (Socket_getattr self name w) = Inl ValueError \<longleftrightarrow>
      (\<forall>c\<in>set ?cs. supplies (plugs w c) name = None)"
    unfolding none [symmetric] by (simp add: Socket_getattr_cases Let_def)
  have 2: "\<exists>v. fst (Socket_getattr self name w) = Inr (Some v)"
    if some: "\<exists>c\<in>set ?cs. supplies (plugs w c) name \<noteq> None"
    and defd: "\<forall>c\<in>set ?cs. \<forall>a. supplies (plugs w c) name = Some a \<longrightarrow> attrs (plugs w c) a \<noteq> None"
  proof -
    from some have ne: "?ms \<noteq> []" by (simp add: none)
    have all: "\<forall>c\<in>set ?ms. attrs (plugs w c) (the (supplies (plugs w c) name)) \<noteq> None"
      using defd by (auto simp: set_supplying)
    from ne have "last ?ms \<in> set ?ms" by (rule last_in_set)
    with all obtain v where "attrs (plugs w (last ?ms)) (the (supplies (plugs w (last ?ms)) name)) = Some v"
      by blast
    with ne all show ?thesis
      by (simp add: Socket_getattr_cases Let_def)
  qed
  have 3: "fst (Socket_getattr self name w) = Inl AttributeError"
    if "\<exists>c\<in>set ?cs. \<exists>a. supplies (plugs w c) name = Some a \<and> attrs (plugs w c) a = None"
  proof -
    from that obtain c a where c: "c \<in> set ?cs" "supplies (plugs w c) name = Some a"
      "attrs (plugs w c) a = None" by blast
    then have mem: "c \<in> set ?ms" by (simp add: set_supplying)
    from c have "attrs (plugs w c) (the (supplies (plugs w c) name)) = None" by simp
    with mem have "\<not> (\<forall>c\<in>set ?ms. attrs (plugs w c) (the (supplies (plugs w c) name)) \<noteq> None)"
      by blast
    moreover from mem have "?ms \<noteq> []" by auto
    ultimately show ?thesis
      by (simp add: Socket_getattr_cases Let_def)
  qed
  from 1 2 3 show ?thesis by blast
qed

text \<open>
  Claim C3, as amended. A read raises \<open>ValueError\<close> (the unsupplied-name error) exactly
  when no plug of the resolution order has the name in its supply map, which on a socket
  whose resolution order is compiled is exactly when no attached plug has; the error is
  the result of the read itself. When some plug supplies the name, the read succeeds if
  every supplying plug has the mapped attribute, and raises the \<open>AttributeError\<close> of
  \<^verbatim>\<open>getattr\<close> if one of them has not.
\<close>

theorem getattr_errors:
  "(fst (Socket_getattr self name w) = Inl ValueError \<longleftrightarrow>
      (\<forall>c\<in>set (compiled_connections (sockets w self)). supplies (plugs w c) name = None)) \<and>
   (compiled_ok (sockets w self) \<longrightarrow>
      (fst (Socket_getattr self name w) = Inl ValueError \<longleftrightarrow>
         (\<forall>c\<in>attached (sockets w self). supplies (plugs w c) name = None))) \<and>
   ((\<exists>c\<in>set (compiled_connections (sockets w self)). supplies (plugs w c) name \<noteq> None) \<and>
    (\<forall>c\<in>set (compiled_connections (sockets w self)). \<forall>a.
        supplies (plugs w c) name = Some a \<longrightarrow> attrs (plugs w c) a \<noteq> None) \<longrightarrow>
      (\<exists>v. fst (Socket_getattr self name w) = Inr (Some v))) \<and>
   ((\<exists>c\<in>set (compiled_connections (sockets w self)). \<exists>a.
        supplies (plugs w c) name = Some a \<and> attrs (plugs w c) a = None) \<longrightarrow>
      fst (Socket_getattr self name w) = Inl AttributeError)"
proof -
  have "fst (Socket_getattr self name w) = Inl ValueError \<longleftrightarrow>
      (\<forall>c\<in>attached (sockets w self). supplies (plugs w c) name = None)"
    if "compiled_ok (sockets w self)"
    using getattr_errors_order [of self name w] compiled_ok_attached [OF that] by simp
  with getattr_errors_order [of self name w] show ?thesis
    by blast
qed

text \<open>
  Three reads of \<^verbatim>\<open>x\<close>: on a socket whose one plug supplies \<^verbatim>\<open>x\<close> and has it set to 7;
  on a socket with no plugs; on a socket whose plug supplies \<^verbatim>\<open>hp\<close> only.
\<close>

theorem getattr_errors_witness:
  "fst (Socket_getattr 0 ''x''
      (snd (script [Plug_supply 1 ''x'' None, assign 1 ''x'' 7, connect Plug_methods 0 1 0]
         fresh_world))) = Inr (Some 7) \<and>
   fst (Socket_getattr 0 ''x'' fresh_world) = Inl ValueError \<and>
   fst (Socket_getattr 0 ''x''
      (snd (script [Plug_supply 1 ''hp'' None, assign 1 ''hp'' 3, connect Plug_methods 0 1 0]
         fresh_world))) = Inl ValueError"
  using getattr_errors
    [of 0 "''x''" "snd (script [Plug_supply 1 ''x'' None, assign 1 ''x'' 7, connect Plug_methods 0 1 0]
         fresh_world)"]
    getattr_errors [of 0 "''x''" fresh_world]
    getattr_errors
    [of 0 "''x''" "snd (script [Plug_supply 1 ''hp'' None, assign 1 ''hp'' 3, connect Plug_methods 0 1 0]
         fresh_world)"]
  by (simp add: run_defs)

text \<open>
  The claim as stated (the read succeeds whenever some plug supplies the name) fails for
  a plug that called \<^verbatim>\<open>supply('x')\<close> and never set \<^verbatim>\<open>x\<close>: the read raises
  \<open>AttributeError\<close>.
\<close>

theorem getattr_supplied_raises:
  "fst (Socket_getattr 0 ''x''
      (snd (script [Plug_supply 1 ''x'' None, connect Plug_methods 0 1 0] fresh_world))) =
   Inl AttributeError"
  by (simp add: run_defs)

lemma setattr_fan_out_order:
  assumes "\<exists>c\<in>set (compiled_connections (sockets w self)). supplies (plugs w c) name \<noteq> None"
  shows "fst (Socket_setattr self name v w) = Inr () \<and>
    (\<forall>c\<in>set (compiled_connections (sockets w self)). \<forall>a.
        supplies (plugs w c) name = Some a \<longrightarrow>
        attrs (plugs (snd (Socket_setattr self name v w)) c) a = Some v) \<and>
    (\<forall>c a. \<not> (c \<in> set (compiled_connections (sockets w self)) \<and> supplies (plugs w c) name = Some a) \<longrightarrow>
        attrs (plugs (snd (Socket_setattr self name v w)) c) a = attrs (plugs w c) a) \<and>
    (\<forall>c. supplies (plugs (snd (Socket_setattr self name v w)) c) = supplies (plugs w c) \<and>
         socket (plugs (snd (Socket_setattr self name v w)) c) = socket (plugs w c)) \<and>
    sockets (snd (Socket_setattr self name v w)) = sockets w"
proof -
  let ?cs = "compiled_connections (sockets w self)"
  let ?ms = "supplying (plugs w) name ?cs"
  let ?ys = "map (\<lambda>c. (c, the (supplies (plugs w c) name))) ?ms"
  from assms have ne: "?ms \<noteq> []" by (simp add: supplying_Nil_iff)
  then have res: "Socket_setattr self name v w = (Inr (), w\<lparr>plugs := setattr_loop ?ys v (plugs w)\<rparr>)"
    by (simp add: Socket_setattr_def find_supplies_eq)
  have mem: "(c, a) \<in> set ?ys \<longleftrightarrow> c \<in> set ?cs \<and> supplies (plugs w c) name = Some a" for c a
    by (auto simp: set_supplying)
  have attrs_eq: "attrs (setattr_loop ?ys v (plugs w) c) a =
      (if c \<in> set ?cs \<and> supplies (plugs w c) name = Some a then Some v else attrs (plugs w c) a)" for c a
    unfolding setattr_loop_attrs mem ..
  show ?thesis
    unfolding res by (simp add: attrs_eq)
qed

text \<open>
  Claim C4. When some plug of the resolution order supplies the name, a write raises
  nothing and stores the value in the mapped attribute of every plug of the resolution
  order that supplies the name, whatever its priority. No other attribute changes, and
  supply maps, back-references and the socket are as before. On a socket whose
  resolution order is compiled these plugs are the attached ones: the write stores the
  value in every attached plug that supplies the name, in whichever bucket it sits.
\<close>

theorem setattr_fan_out:
  "((\<exists>c\<in>set (compiled_connections (sockets w self)). supplies (plugs w c) name \<noteq> None) \<longrightarrow>
    fst (Socket_setattr self name v w) = Inr () \<and>
    (\<forall>c\<in>set (compiled_connections (sockets w self)). \<forall>a.
        supplies (plugs w c) name = Some a \<longrightarrow>
        attrs (plugs (snd (Socket_setattr self name v w)) c) a = Some v) \<and>
    (\<forall>c a. \<not> (c \<in> set (compiled_connections (sockets w self)) \<and> supplies (plugs w c) name = Some a) \<longrightarrow>
        attrs (plugs (snd (Socket_setattr self name v w)) c) a = attrs (plugs w c) a) \<and>
    (\<forall>c. supplies (plugs (snd (Socket_setattr self name v w)) c) = supplies (plugs w c) \<and>
         socket (plugs (snd (Socket_setattr self name v w)) c) = socket (plugs w c)) \<and>
    sockets (snd (Socket_setattr self name v w)) = sockets w) \<and>
   (compiled_ok (sockets w self) \<and>
    (\<exists>c\<in>attached (sockets w self). supplies (plugs w c) name \<noteq> None) \<longrightarrow>
    fst (Socket_setattr self name v w) = Inr () \<and>
    (\<forall>c\<in>attached (sockets w self). \<forall>a.
        supplies (plugs w c) name = Some a \<longrightarrow>
        attrs (plugs (snd (Socket_setattr self name v w)) c) a = Some v))"
proof (rule conjI; rule impI)
  assume some: "\<exists>c\<in>set (compiled_connections (sockets w self)). supplies (plugs w c) name \<noteq> None"
  show "fst (Socket_setattr self name v w) = Inr () \<and>
    (\<forall>c\<in>set (compiled_connections (sockets w self)). \<forall>a.
        supplies (plugs w c) name = Some a \<longrightarrow>
        attrs (plugs (snd (Socket_setattr self name v w)) c) a = Some v) \<and>
    (\<forall>c a. \<not> (c \<in> set (compiled_connections (sockets w self)) \<and> supplies (plugs w c) name = Some a) \<longrightarrow>
        attrs (plugs (snd (Socket_setattr self name v w)) c) a = attrs (plugs w c) a) \<and>
    (\<forall>c. supplies (plugs (snd (Socket_setattr self name v w)) c) = supplies (plugs w c) \<and>
         socket (plugs (snd (Socket_setattr self name v w)) c) = socket (plugs w c)) \<and>
    sockets (snd (Socket_setattr self name v w)) = sockets w"
    by (rule setattr_fan_out_order [OF some])
next
  assume h: "compiled_ok (sockets w self) \<and>
    (\<exists>c\<in>attached (sockets w self). supplies (plugs w c) name \<noteq> None)"
  then have eq: "set (compiled_connections (sockets w self)) = attached (sockets w self)"
    by (simp add: compiled_ok_attached)
  with h have some: "\<exists>c\<in>set (compiled_connections (sockets w self)). supplies (plugs w c) name \<noteq> None"
    by simp
  from setattr_fan_out_order [OF some, of v]
  show "fst (Socket_setattr self name v w) = Inr () \<and>
    (\<forall>c\<in>attached (sockets w self). \<forall>a.
        supplies (plugs w c) name = Some a \<longrightarrow>
        attrs (plugs (snd (Socket_setattr self name v w)) c) a = Some v)"
    unfolding eq by blast
qed

text \<open>
  Plug 1 at priority 0 supplies \<^verbatim>\<open>y\<close>; plug 2 at priority 1 supplies its \<^verbatim>\<open>why\<close> as
  \<^verbatim>\<open>y\<close>. Writing \<^verbatim>\<open>y = 5\<close> sets both.
\<close>

theorem setattr_fan_out_witness:
  "fst (Socket_setattr 0 ''y'' 5 fan_out) = Inr () \<and>
   attrs (plugs (snd (Socket_setattr 0 ''y'' 5 fan_out)) 1) ''y'' = Some 5 \<and>
   attrs (plugs (snd (Socket_setattr 0 ''y'' 5 fan_out)) 2) ''why'' = Some 5"
proof -
  have ok: "compiled_ok (sockets fan_out 0) \<and>
    (\<exists>c\<in>attached (sockets fan_out 0). supplies (plugs fan_out c) ''y'' \<noteq> None)"
    by (simp add: fan_out_def run_defs)
  have 1: "1 \<in> attached (sockets fan_out 0)" "supplies (plugs fan_out 1) ''y'' = Some ''y''"
    and 2: "2 \<in> attached (sockets fan_out 0)" "supplies (plugs fan_out 2) ''y'' = Some ''why''"
    by (simp_all add: fan_out_def run_defs)
  from setattr_fan_out [of fan_out 0 "''y''" 5] ok
  have res: "fst (Socket_setattr 0 ''y'' 5 fan_out) = Inr ()"
    and all: "\<forall>c\<in>attached (sockets fan_out 0). \<forall>a.
        supplies (plugs fan_out c) ''y'' = Some a \<longrightarrow>
        attrs (plugs (snd (Socket_setattr 0 ''y'' 5 fan_out)) c) a = Some 5"
    by blast+
  from all 1 have "attrs (plugs (snd (Socket_setattr 0 ''y'' 5 fan_out)) 1) ''y'' = Some 5"
    by blast
  moreover from all 2 have "attrs (plugs (snd (Socket_setattr 0 ''y'' 5 fan_out)) 2) ''why'' = Some 5"
    by blast
  ultimately show ?thesis
    using res by simp
qed

section \<open>Attach and detach\<close>

text \<open>
  \<open>connect\<close> hands the hook the store that \<open>connect\<close> with the base class's hook
  (\<^verbatim>\<open>pass\<close>) ends in; \<open>disconnect\<close> runs the hook on the store it was called in and then
  proceeds as with the base class's hook.
\<close>

lemma connect_hook:
  "connect M self plug priority w =
     connected M plug (snd (connect Plug_methods self plug priority w))"
  by (simp add: connect_def Plug_methods_def Let_def split_beta)

lemma connect_base_plugs:
  "plugs (snd (connect Plug_methods self plug priority w)) =
     (plugs w)(plug := (plugs w plug)\<lparr>socket := Some self\<rparr>)"
  by (simp add: connect_def Plug_methods_def Let_def split_beta)

lemma connect_base_sockets:
  "s \<noteq> self \<Longrightarrow> sockets (snd (connect Plug_methods self plug priority w)) s = sockets w s"
  by (simp add: connect_def Plug_methods_def Let_def split_beta)

lemma connect_base_lookup:
  "DAList.lookup (connections (sockets (snd (connect Plug_methods self plug priority w)) self)) k =
     (if k = priority then Some (bucket (connections (sockets w self)) priority @ [plug])
      else DAList.lookup (connections (sockets w self)) k)"
  by (auto simp: connect_def Plug_methods_def Let_def split_beta defaultdict_getitem_def bucket_def
      split: option.splits)

lemma connect_base_ok:
  "compiled_ok (sockets (snd (connect Plug_methods self plug priority w)) self)"
  by (simp add: connect_def Plug_methods_def Let_def split_beta)

lemma disconnect_hook:
  "disconnect M self plug w =
     (case disconnected M plug w of
        (Inl e, w1) \<Rightarrow> (Inl e, w1)
      | (Inr u, w1) \<Rightarrow> disconnect Plug_methods self plug w1)"
  by (simp add: disconnect_def Plug_methods_def split: prod.splits sum.splits)

lemma disconnect_base_result: "fst (disconnect Plug_methods self plug w) = Inr ()"
  by (simp add: disconnect_def Plug_methods_def Let_def)

lemma disconnect_base_plugs: "plugs (snd (disconnect Plug_methods self plug w)) = plugs w"
  by (simp add: disconnect_def Plug_methods_def Let_def)

lemma disconnect_base_sockets:
  "s \<noteq> self \<Longrightarrow> sockets (snd (disconnect Plug_methods self plug w)) s = sockets w s"
  by (simp add: disconnect_def Plug_methods_def Let_def)

lemma disconnect_base_lookup:
  "DAList.lookup (connections (sockets (snd (disconnect Plug_methods self plug w)) self)) k =
     map_option (removeAll plug) (DAList.lookup (connections (sockets w self)) k)"
  by (simp add: disconnect_def Plug_methods_def Let_def lookup_remove_plug)

lemma disconnect_base_ok:
  "compiled_ok (sockets (snd (disconnect Plug_methods self plug w)) self)"
  by (simp add: disconnect_def Plug_methods_def Let_def)

text \<open>
  Claim C5. \<^verbatim>\<open>_compile_connections\<close> sets the resolution order to the registry
  flattened as the specification has it (\<open>flatten\<close>: priorities ascending, each bucket in
  insertion order). A new socket has its order compiled, and an attach or a detach on one
  socket leaves every other socket as it is. \<open>connect\<close> recompiles before it calls the
  hook and \<open>disconnect\<close> recompiles last, so the resolution order is the flattened
  registry in the store the attach hook receives (that is, after every attach with the
  base class's hook), after every attach whose hook keeps it so, and after every
  completed detach.
\<close>

theorem compiled_after_attach_detach:
  "compiled_ok Socket_init \<and>
   compiled_connections (compile_connections S) = flatten (connections S) \<and>
   (\<forall>s. s \<noteq> self \<longrightarrow>
      sockets (snd (connect Plug_methods self plug priority w)) s = sockets w s \<and>
      sockets (snd (disconnect Plug_methods self plug w)) s = sockets w s) \<and>
   compiled_ok (sockets (snd (connect Plug_methods self plug priority w)) self) \<and>
   ((\<forall>w1. compiled_ok (sockets w1 self) \<longrightarrow>
           compiled_ok (sockets (snd (connected M plug w1)) self)) \<longrightarrow>
      compiled_ok (sockets (snd (connect M self plug priority w)) self)) \<and>
   (fst (disconnect M self plug w) = Inr () \<longrightarrow>
      compiled_ok (sockets (snd (disconnect M self plug w)) self))"
proof (intro conjI impI allI)
  show "compiled_ok Socket_init"
    by (rule Socket_init_ok)
  show "compiled_connections (compile_connections S) = flatten (connections S)"
    by (rule compiled_compile)
  show "sockets (snd (connect Plug_methods self plug priority w)) s = sockets w s"
    if "s \<noteq> self" for s
    using that by (rule connect_base_sockets)
  show "sockets (snd (disconnect Plug_methods self plug w)) s = sockets w s"
    if "s \<noteq> self" for s
    using that by (rule disconnect_base_sockets)
  show "compiled_ok (sockets (snd (connect Plug_methods self plug priority w)) self)"
    by (rule connect_base_ok)
  show "compiled_ok (sockets (snd (connect M self plug priority w)) self)"
    if "\<forall>w1. compiled_ok (sockets w1 self) \<longrightarrow> compiled_ok (sockets (snd (connected M plug w1)) self)"
    using that connect_base_ok [of self plug priority w]
    by (subst connect_hook) blast
  show "compiled_ok (sockets (snd (disconnect M self plug w)) self)"
    if "fst (disconnect M self plug w) = Inr ()"
  proof (cases "disconnected M plug w")
    case (Pair r w1)
    show ?thesis
    proof (cases r)
      case (Inl e)
      with Pair have "fst (disconnect M self plug w) = Inl e"
        by (subst disconnect_hook) simp
      with that show ?thesis by simp
    next
      case (Inr u)
      with Pair have "disconnect M self plug w = disconnect Plug_methods self plug w1"
        by (subst disconnect_hook) simp
      then show ?thesis by (simp add: disconnect_base_ok)
    qed
  qed
qed

text \<open>
  Attaching plug 2 at priority \<open>-1\<close> to a socket that holds plug 1 at priority 0, and
  detaching plug 1 from the socket that holds it three times.
\<close>

theorem compiled_after_attach_detach_witness:
  "compiled_ok (sockets (snd (connect Plug_methods 0 2 (- 1) one_attached)) 0) \<and>
   compiled_connections (sockets (snd (connect Plug_methods 0 2 (- 1) one_attached)) 0) = [2, 1] \<and>
   compiled_ok (sockets (snd (disconnect Plug_methods 0 1 twice_attached)) 0) \<and>
   compiled_connections (sockets (snd (disconnect Plug_methods 0 1 twice_attached)) 0) = [2]"
  using compiled_after_attach_detach
    [where S = "sockets one_attached 0" and self = 0 and plug = 2 and priority = "- 1"
       and w = one_attached and M = Plug_methods]
    compiled_after_attach_detach
    [where S = "sockets one_attached 0" and self = 0 and plug = 1 and priority = 0
       and w = twice_attached and M = Plug_methods]
  by (simp add: one_attached_def twice_attached_def run_defs)

text \<open>
  Claim C6. One \<open>disconnect\<close> of a plug whose hook returns removes every occurrence of
  the plug from every bucket: each bucket becomes \<open>removeAll plug\<close> of what it was after
  the hook, so the attached plugs are those of before without the plug, however often
  and at however many priorities it was registered; the resolution order does not hold
  it, and a read of a name that no other attached plug supplies raises \<open>ValueError\<close>.
\<close>

theorem detach_removes_all:
  assumes "disconnected M plug w = (Inr u, w1)"
  shows "fst (disconnect M self plug w) = Inr () \<and>
    (\<forall>k. DAList.lookup (connections (sockets (snd (disconnect M self plug w)) self)) k =
          map_option (removeAll plug) (DAList.lookup (connections (sockets w1 self)) k)) \<and>
    attached (sockets (snd (disconnect M self plug w)) self) = attached (sockets w1 self) - {plug} \<and>
    plug \<notin> set (compiled_connections (sockets (snd (disconnect M self plug w)) self)) \<and>
    (\<forall>name.
       (\<forall>c\<in>attached (sockets w1 self). c \<noteq> plug \<longrightarrow> supplies (plugs w1 c) name = None) \<longrightarrow>
       fst (Socket_getattr self name (snd (disconnect M self plug w))) = Inl ValueError)"
proof -
  let ?w = "snd (disconnect Plug_methods self plug w1)"
  from assms have eq: "disconnect M self plug w = disconnect Plug_methods self plug w1"
    by (subst disconnect_hook) simp
  have look: "DAList.lookup (connections (sockets ?w self)) k =
      map_option (removeAll plug) (DAList.lookup (connections (sockets w1 self)) k)" for k
    by (rule disconnect_base_lookup)
  have att: "attached (sockets ?w self) = attached (sockets w1 self) - {plug}"
  proof (rule set_eqI)
    fix c
    have "c \<in> attached (sockets ?w self) \<longleftrightarrow>
        (\<exists>k b. DAList.lookup (connections (sockets w1 self)) k = Some b \<and> c \<in> set (removeAll plug b))"
      unfolding attached_iff look by blast
    also have "\<dots> \<longleftrightarrow> c \<in> attached (sockets w1 self) - {plug}"
      by (simp add: attached_iff) blast
    finally show "c \<in> attached (sockets ?w self) \<longleftrightarrow> c \<in> attached (sockets w1 self) - {plug}" .
  qed
  have mem: "set (compiled_connections (sockets ?w self)) = attached (sockets ?w self)"
    by (rule compiled_ok_attached) (rule disconnect_base_ok)
  have notin: "plug \<notin> set (compiled_connections (sockets ?w self))"
    by (simp add: mem att)
  have unsupplied: "fst (Socket_getattr self name ?w) = Inl ValueError"
    if only: "\<forall>c\<in>attached (sockets w1 self). c \<noteq> plug \<longrightarrow> supplies (plugs w1 c) name = None"
    for name
  proof -
    have "supplies (plugs ?w c) name = None" if "c \<in> set (compiled_connections (sockets ?w self))" for c
      using that only by (simp add: mem att disconnect_base_plugs)
    then have "supplying (plugs ?w) name (compiled_connections (sockets ?w self)) = []"
      by (simp add: supplying_Nil_iff)
    then show ?thesis
      by (simp add: Socket_getattr_cases)
  qed
  show ?thesis
    unfolding eq using look att notin unsupplied
    by (simp add: disconnect_base_result)
qed

text \<open>
  Plug 1 is in the registry three times, at two priorities; after one detach the buckets
  hold plug 2 only, \<^verbatim>\<open>x\<close> is unsupplied and \<^verbatim>\<open>y\<close> still resolves.
\<close>

theorem detach_removes_all_witness:
  "DAList.impl_of (connections (sockets twice_attached 0)) = [(0, [1, 2, 1]), (5, [1])] \<and>
   fst (Socket_getattr 0 ''x'' twice_attached) = Inr (Some 7) \<and>
   DAList.impl_of (connections (sockets (snd (disconnect Plug_methods 0 1 twice_attached)) 0)) =
     [(0, [2]), (5, [])] \<and>
   fst (Socket_getattr 0 ''x'' (snd (disconnect Plug_methods 0 1 twice_attached))) = Inl ValueError \<and>
   fst (Socket_getattr 0 ''y'' (snd (disconnect Plug_methods 0 1 twice_attached))) = Inr (Some 8)"
proof -
  have hook: "disconnected Plug_methods 1 twice_attached = (Inr (), twice_attached)"
    by (simp add: Plug_methods_def)
  have only: "\<forall>c\<in>attached (sockets twice_attached 0).
      c \<noteq> 1 \<longrightarrow> supplies (plugs twice_attached c) ''x'' = None"
    by (simp add: twice_attached_def run_defs)
  from detach_removes_all [OF hook, of 0] only
  have x: "fst (Socket_getattr 0 ''x'' (snd (disconnect Plug_methods 0 1 twice_attached))) = Inl ValueError"
    by blast
  have rest: "DAList.impl_of (connections (sockets twice_attached 0)) = [(0, [1, 2, 1]), (5, [1])]"
    "fst (Socket_getattr 0 ''x'' twice_attached) = Inr (Some 7)"
    "DAList.impl_of (connections (sockets (snd (disconnect Plug_methods 0 1 twice_attached)) 0)) =
     [(0, [2]), (5, [])]"
    "fst (Socket_getattr 0 ''y'' (snd (disconnect Plug_methods 0 1 twice_attached))) = Inr (Some 8)"
    by (simp_all add: twice_attached_def run_defs)
  from x rest show ?thesis by simp
qed

text \<open>
  Claim C7. \<open>connect\<close> calls \<open>connected\<close> on the store in which the back-reference is
  set, the plug is at the end of its bucket and the resolution order is recompiled: in
  that store the plug is attached and in the resolution order, so a read of any name it
  supplies does not raise the unsupplied-name error. \<open>disconnect\<close> calls \<open>disconnected\<close> on the store
  it was called in, before anything is removed, and removes only when the hook returns.
\<close>

theorem hook_order:
  "connect M self plug priority w =
     connected M plug (snd (connect Plug_methods self plug priority w)) \<and>
   socket (plugs (snd (connect Plug_methods self plug priority w)) plug) = Some self \<and>
   bucket (connections (sockets (snd (connect Plug_methods self plug priority w)) self)) priority =
     bucket (connections (sockets w self)) priority @ [plug] \<and>
   compiled_ok (sockets (snd (connect Plug_methods self plug priority w)) self) \<and>
   plug \<in> set (compiled_connections (sockets (snd (connect Plug_methods self plug priority w)) self)) \<and>
   plug \<in> attached (sockets (snd (connect Plug_methods self plug priority w)) self) \<and>
   (\<forall>name. supplies (plugs w plug) name \<noteq> None \<longrightarrow>
      fst (Socket_getattr self name (snd (connect Plug_methods self plug priority w))) \<noteq> Inl ValueError) \<and>
   disconnect M self plug w =
     (case disconnected M plug w of
        (Inl e, w1) \<Rightarrow> (Inl e, w1)
      | (Inr u, w1) \<Rightarrow> disconnect Plug_methods self plug w1)"
proof -
  let ?w = "snd (connect Plug_methods self plug priority w)"
  have buck: "bucket (connections (sockets ?w self)) priority =
      bucket (connections (sockets w self)) priority @ [plug]"
    by (simp add: bucket_def [of "connections (sockets ?w self)"] connect_base_lookup)
  have "DAList.lookup (connections (sockets ?w self)) priority =
      Some (bucket (connections (sockets w self)) priority @ [plug])"
    by (simp add: connect_base_lookup)
  then have "\<exists>k b. DAList.lookup (connections (sockets ?w self)) k = Some b \<and> plug \<in> set b"
    by (intro exI [of _ priority] exI [of _ "bucket (connections (sockets w self)) priority @ [plug]"])
       simp
  then have mem: "plug \<in> set (compiled_connections (sockets ?w self))"
    by (simp add: compiled_ok_members [OF connect_base_ok])
  have read: "fst (Socket_getattr self name ?w) \<noteq> Inl ValueError"
    if "supplies (plugs w plug) name \<noteq> None" for name
  proof -
    from that have "supplies (plugs ?w plug) name \<noteq> None"
      by (simp add: connect_base_plugs)
    with mem have "supplying (plugs ?w) name (compiled_connections (sockets ?w self)) \<noteq> []"
      by (auto simp: supplying_Nil_iff)
    then show ?thesis
      by (simp add: Socket_getattr_cases Let_def)
  qed
  from mem have att: "plug \<in> attached (sockets ?w self)"
    by (simp add: compiled_ok_attached [OF connect_base_ok])
  show ?thesis
    using buck mem att read
    by (simp add: connect_hook [symmetric] disconnect_hook [symmetric] connect_base_plugs connect_base_ok)
qed

text \<open>
  With the probing subclass: reading \<^verbatim>\<open>x\<close> fails before plug 1 is attached, the read
  inside \<open>connected\<close> succeeds, the read inside \<open>disconnected\<close> succeeds (plug 1 is the
  only supplier of \<^verbatim>\<open>x\<close>), and after the detach \<^verbatim>\<open>x\<close> is unsupplied again.
\<close>

theorem hook_order_witness:
  "fst (Socket_getattr 0 ''x'' probe_ready) = Inl ValueError \<and>
   fst (connect (Probe_methods ''x'') 0 1 0 probe_ready) = Inr () \<and>
   fst (disconnect (Probe_methods ''x'') 0 1
          (snd (connect (Probe_methods ''x'') 0 1 0 probe_ready))) = Inr () \<and>
   fst (Socket_getattr 0 ''x''
          (snd (disconnect (Probe_methods ''x'') 0 1
                  (snd (connect (Probe_methods ''x'') 0 1 0 probe_ready))))) = Inl ValueError"
  using hook_order
    [where M = "Probe_methods ''x''" and self = 0 and plug = 1 and priority = 0 and w = probe_ready]
    hook_order
    [where M = "Probe_methods ''x''" and self = 0 and plug = 1 and priority = 0
       and w = "snd (connect (Probe_methods ''x'') 0 1 0 probe_ready)"]
  by (simp add: probe_ready_def probe_def Probe_methods_def run_defs)

section \<open>Supplying names\<close>

text \<open>
  Claim C9. \<^verbatim>\<open>supply\<close> never raises and changes nothing but the supply map of the
  plug it is called on: the socket, the other plugs, and the plug's back-reference and
  attributes stay. It binds one key, the alias when one is given (and not empty) and the
  name otherwise, to the name, and keeps every other entry: calls under different keys
  accumulate, and a call under a key already present overwrites its target, which is
  then the name supplied last.
\<close>

theorem supply_accumulates:
  "fst (Plug_supply self name alias w) = Inr () \<and>
   sockets (snd (Plug_supply self name alias w)) = sockets w \<and>
   (\<forall>p. p \<noteq> self \<longrightarrow> plugs (snd (Plug_supply self name alias w)) p = plugs w p) \<and>
   socket (plugs (snd (Plug_supply self name alias w)) self) = socket (plugs w self) \<and>
   attrs (plugs (snd (Plug_supply self name alias w)) self) = attrs (plugs w self) \<and>
   (alias = None \<or> alias = Some [] \<longrightarrow>
      supplies (plugs (snd (Plug_supply self name alias w)) self) =
        (supplies (plugs w self))(name \<mapsto> name)) \<and>
   (\<forall>a. alias = Some a \<and> a \<noteq> [] \<longrightarrow>
      supplies (plugs (snd (Plug_supply self name alias w)) self) =
        (supplies (plugs w self))(a \<mapsto> name)) \<and>
   (\<forall>n' a a'. a \<noteq> [] \<and> a' \<noteq> [] \<and> alias = Some a \<longrightarrow>
      supplies (plugs (snd (Plug_supply self n' (Some a') (snd (Plug_supply self name alias w)))) self) a' =
        Some n' \<and>
      (a \<noteq> a' \<longrightarrow>
        supplies (plugs (snd (Plug_supply self n' (Some a') (snd (Plug_supply self name alias w)))) self) a =
          Some name)) \<and>
   (\<forall>n'. n' \<noteq> name \<and> alias = None \<longrightarrow>
      supplies (plugs (snd (Plug_supply self n' None (snd (Plug_supply self name alias w)))) self) n' =
        Some n' \<and>
      supplies (plugs (snd (Plug_supply self n' None (snd (Plug_supply self name alias w)))) self) name =
        Some name)"
  by (auto simp: Plug_supply_def)

text \<open>
  \<^verbatim>\<open>supply('hp', alias='health'); supply('mp'); supply('armour', alias='health')\<close> on
  plug 1: \<^verbatim>\<open>health\<close> ends at \<^verbatim>\<open>armour\<close>, \<^verbatim>\<open>mp\<close> is kept, \<^verbatim>\<open>hp\<close> is no key, and plug 2
  is untouched.
\<close>

theorem supply_accumulates_witness:
  "supplies (plugs (snd (script [Plug_supply 1 ''hp'' (Some ''health''), Plug_supply 1 ''mp'' None,
        Plug_supply 1 ''armour'' (Some ''health'')] fresh_world)) 1) ''health'' = Some ''armour'' \<and>
   supplies (plugs (snd (script [Plug_supply 1 ''hp'' (Some ''health''), Plug_supply 1 ''mp'' None,
        Plug_supply 1 ''armour'' (Some ''health'')] fresh_world)) 1) ''mp'' = Some ''mp'' \<and>
   supplies (plugs (snd (script [Plug_supply 1 ''hp'' (Some ''health''), Plug_supply 1 ''mp'' None,
        Plug_supply 1 ''armour'' (Some ''health'')] fresh_world)) 1) ''hp'' = None \<and>
   supplies (plugs (snd (script [Plug_supply 1 ''hp'' (Some ''health''), Plug_supply 1 ''mp'' None,
        Plug_supply 1 ''armour'' (Some ''health'')] fresh_world)) 2) = Map.empty"
  using supply_accumulates [of 1 "''hp''" "Some ''health''" fresh_world]
    supply_accumulates [of 1 "''armour''" "Some ''health''"
      "snd (script [Plug_supply 1 ''hp'' (Some ''health''), Plug_supply 1 ''mp'' None] fresh_world)"]
  by (simp add: run_defs)

lemma supply_sockets [simp]: "sockets (snd (Plug_supply self name al w)) = sockets w"
  by (simp add: Plug_supply_def)

lemma supply_other: "p \<noteq> self \<Longrightarrow> plugs (snd (Plug_supply self name al w)) p = plugs w p"
  by (simp add: Plug_supply_def)

lemma supply_attrs [simp]: "attrs (plugs (snd (Plug_supply self name al w)) p) = attrs (plugs w p)"
  by (simp add: Plug_supply_def)

lemma supply_alias:
  "a \<noteq> [] \<Longrightarrow>
   supplies (plugs (snd (Plug_supply self name (Some a) w)) p) =
     (if p = self then (supplies (plugs w p))(a \<mapsto> name) else supplies (plugs w p))"
  by (simp add: Plug_supply_def)

text \<open>
  Claim C8, as amended. For a plug of the resolution order that calls
  \<^verbatim>\<open>supply(name, alias)\<close> with a non-empty alias: the alias maps to the name; the
  generator yields the plug under the alias with the name and with nothing else, so
  reads and writes of the alias go to the plug's attribute \<open>name\<close>; a write of the alias
  succeeds and sets that attribute; a read of the alias, when no other plug supplies it,
  is the attribute's value (or the \<open>AttributeError\<close> of an attribute not set). When the
  alias differs from the name, the name itself is addressable on the socket, for reads
  and for writes, exactly when some plug supplied it under that name before the call.
  The plugs of the resolution order are the attached plugs when the order is compiled.
\<close>

theorem alias_routes:
  assumes given: "a \<noteq> []"
    and attached: "self \<in> set (compiled_connections (sockets w s))"
  shows "supplies (plugs (snd (Plug_supply self name (Some a) w)) self) a = Some name \<and>
    (self, name) \<in> set (fst (find_supplies s a (snd (Plug_supply self name (Some a) w)))) \<and>
    (\<forall>t. (self, t) \<in> set (fst (find_supplies s a (snd (Plug_supply self name (Some a) w)))) \<longrightarrow>
         t = name) \<and>
    fst (Socket_setattr s a v (snd (Plug_supply self name (Some a) w))) = Inr () \<and>
    attrs (plugs (snd (Socket_setattr s a v (snd (Plug_supply self name (Some a) w)))) self) name =
      Some v \<and>
    ((\<forall>c\<in>set (compiled_connections (sockets w s)). c \<noteq> self \<longrightarrow> supplies (plugs w c) a = None) \<longrightarrow>
       fst (Socket_getattr s a (snd (Plug_supply self name (Some a) w))) =
         (case attrs (plugs w self) name of None \<Rightarrow> Inl AttributeError | Some x \<Rightarrow> Inr (Some x))) \<and>
    (a \<noteq> name \<longrightarrow>
       (fst (Socket_getattr s name (snd (Plug_supply self name (Some a) w))) = Inl ValueError \<longleftrightarrow>
          (\<forall>c\<in>set (compiled_connections (sockets w s)). supplies (plugs w c) name = None)) \<and>
       (fst (Socket_setattr s name v (snd (Plug_supply self name (Some a) w))) = Inl ValueError \<longleftrightarrow>
          (\<forall>c\<in>set (compiled_connections (sockets w s)). supplies (plugs w c) name = None))) \<and>
    (compiled_ok (sockets w s) \<longrightarrow> set (compiled_connections (sockets w s)) = attached (sockets w s))"
proof -
  let ?w = "snd (Plug_supply self name (Some a) w)"
  let ?cs = "compiled_connections (sockets w s)"
  have sup: "supplies (plugs ?w p) = (if p = self then (supplies (plugs w p))(a \<mapsto> name) else supplies (plugs w p))" for p
    using given by (rule supply_alias)
  have self_sup: "supplies (plugs ?w self) a = Some name"
    by (simp add: sup)
  have in_ms: "self \<in> set (supplying (plugs ?w) a ?cs)"
    using attached by (simp add: set_supplying self_sup)
  then have ne: "supplying (plugs ?w) a ?cs \<noteq> []"
    by auto
  have yields: "fst (find_supplies s a ?w) =
      map (\<lambda>c. (c, the (supplies (plugs ?w c) a))) (supplying (plugs ?w) a ?cs)"
    by (simp add: find_supplies_eq)
  have 1: "(self, name) \<in> set (fst (find_supplies s a ?w))"
    unfolding yields using in_ms self_sup by force
  have 2: "t = name" if "(self, t) \<in> set (fst (find_supplies s a ?w))" for t
    using that unfolding yields by (auto simp: self_sup)
  have res: "Socket_setattr s a v ?w =
      (Inr (), ?w\<lparr>plugs := setattr_loop (fst (find_supplies s a ?w)) v (plugs ?w)\<rparr>)"
    using ne by (simp add: Socket_setattr_def find_supplies_eq)
  have 3: "fst (Socket_setattr s a v ?w) = Inr ()"
    by (simp add: res)
  have 4: "attrs (plugs (snd (Socket_setattr s a v ?w)) self) name = Some v"
    using 1 by (simp add: res setattr_loop_attrs)
  have 5: "fst (Socket_getattr s a ?w) =
      (case attrs (plugs w self) name of None \<Rightarrow> Inl AttributeError | Some x \<Rightarrow> Inr (Some x))"
    if only: "\<forall>c\<in>set ?cs. c \<noteq> self \<longrightarrow> supplies (plugs w c) a = None"
  proof -
    have "c = self" if "c \<in> set (supplying (plugs ?w) a ?cs)" for c
      using that only by (auto simp: set_supplying sup split: if_splits)
    then have all: "\<forall>c\<in>set (supplying (plugs ?w) a ?cs). c = self"
      by blast
    with ne have last: "last (supplying (plugs ?w) a ?cs) = self"
      using last_in_set by blast
    show ?thesis
    proof (cases "attrs (plugs w self) name")
      case None
      with in_ms have "\<not> (\<forall>c\<in>set (supplying (plugs ?w) a ?cs).
          attrs (plugs ?w c) (the (supplies (plugs ?w c) a)) \<noteq> None)"
        by (auto simp: self_sup intro!: bexI [of _ self])
      with ne None show ?thesis
        by (simp add: Socket_getattr_cases Let_def)
    next
      case (Some x)
      with all have "\<forall>c\<in>set (supplying (plugs ?w) a ?cs).
          attrs (plugs ?w c) (the (supplies (plugs ?w c) a)) \<noteq> None"
        by (auto simp: self_sup)
      with ne Some last show ?thesis
        by (simp add: Socket_getattr_cases Let_def self_sup)
    qed
  qed
  have "supplies (plugs ?w c) name = supplies (plugs w c) name" if "a \<noteq> name" for c
    using that by (simp add: sup)
  then have same: "supplying (plugs ?w) name ?cs = supplying (plugs w) name ?cs" if "a \<noteq> name"
    using that by (simp add: supplying_def)
  have 6: "fst (Socket_getattr s name ?w) = Inl ValueError \<longleftrightarrow>
      (\<forall>c\<in>set ?cs. supplies (plugs w c) name = None)" if "a \<noteq> name"
    by (simp add: Socket_getattr_cases Let_def same [OF that] supplying_Nil_iff [symmetric])
  have 7: "fst (Socket_setattr s name v ?w) = Inl ValueError \<longleftrightarrow>
      (\<forall>c\<in>set ?cs. supplies (plugs w c) name = None)" if "a \<noteq> name"
    by (simp add: Socket_setattr_def find_supplies_eq same [OF that] supplying_Nil_iff [symmetric])
  have 8: "set (compiled_connections (sockets w s)) = attached (sockets w s)"
    if "compiled_ok (sockets w s)"
    using that by (rule compiled_ok_attached)
  from self_sup 1 2 3 4 5 6 7 8 show ?thesis
    by blast
qed

text \<open>
  \<^verbatim>\<open>supply('hp', alias='health')\<close> on the attached plug 1 with \<^verbatim>\<open>hp = 5\<close>: reading
  \<^verbatim>\<open>health\<close> gives 5, writing \<^verbatim>\<open>health = 9\<close> sets \<^verbatim>\<open>hp\<close>, and \<^verbatim>\<open>hp\<close> is unsupplied.
\<close>

theorem alias_routes_witness:
  "fst (Socket_getattr 0 ''health'' (snd (Plug_supply 1 ''hp'' (Some ''health'') hp_attached))) =
     Inr (Some 5) \<and>
   attrs (plugs (snd (Socket_setattr 0 ''health'' 9
      (snd (Plug_supply 1 ''hp'' (Some ''health'') hp_attached)))) 1) ''hp'' = Some 9 \<and>
   fst (Socket_getattr 0 ''hp'' (snd (Plug_supply 1 ''hp'' (Some ''health'') hp_attached))) =
     Inl ValueError"
proof -
  have given: "''health'' \<noteq> []"
    by simp
  have attached: "1 \<in> set (compiled_connections (sockets hp_attached 0))"
    by (simp add: hp_attached_def run_defs)
  have only: "\<forall>c\<in>set (compiled_connections (sockets hp_attached 0)).
      c \<noteq> 1 \<longrightarrow> supplies (plugs hp_attached c) ''health'' = None"
    by (simp add: hp_attached_def run_defs)
  have none: "\<forall>c\<in>set (compiled_connections (sockets hp_attached 0)).
      supplies (plugs hp_attached c) ''hp'' = None"
    by (simp add: hp_attached_def run_defs)
  have val: "attrs (plugs hp_attached 1) ''hp'' = Some 5"
    by (simp add: hp_attached_def run_defs)
  have differ: "''health'' \<noteq> ''hp''"
    by simp
  note routes = alias_routes [OF given attached, of "''hp''" 9]
  from routes only val
  have "fst (Socket_getattr 0 ''health'' (snd (Plug_supply 1 ''hp'' (Some ''health'') hp_attached))) =
     Inr (Some 5)"
    by simp
  moreover from routes
  have "attrs (plugs (snd (Socket_setattr 0 ''health'' 9
      (snd (Plug_supply 1 ''hp'' (Some ''health'') hp_attached)))) 1) ''hp'' = Some 9"
    by blast
  moreover from routes differ none
  have "fst (Socket_getattr 0 ''hp'' (snd (Plug_supply 1 ''hp'' (Some ''health'') hp_attached))) =
     Inl ValueError"
    by blast
  ultimately show ?thesis
    by blast
qed

text \<open>
  The claim as stated (for every alias given) fails for the empty string, which
  \<^verbatim>\<open>if not alias\<close> treats as no alias: after \<^verbatim>\<open>supply('hp', alias='')\<close> the empty name
  is unsupplied and \<^verbatim>\<open>hp\<close> itself is addressable.
\<close>

theorem empty_alias_not_routed:
  "fst (Socket_getattr 0 [] (snd (Plug_supply 1 ''hp'' (Some []) hp_attached))) = Inl ValueError \<and>
   fst (Socket_getattr 0 ''hp'' (snd (Plug_supply 1 ''hp'' (Some []) hp_attached))) = Inr (Some 5)"
  by (simp add: hp_attached_def run_defs)

section \<open>Resolution by priority\<close>

text \<open>
  The last element of a list that satisfies a predicate splits the list, and in a
  concatenation of buckets it is the last such element of the last bucket that has one.
\<close>

lemma last_filter_split:
  "filter Q xs \<noteq> [] \<Longrightarrow>
     \<exists>ys zs. xs = ys @ last (filter Q xs) # zs \<and> Q (last (filter Q xs)) \<and> (\<forall>z\<in>set zs. \<not> Q z)"
proof (induction xs rule: rev_induct)
  case Nil
  then show ?case by simp
next
  case (snoc x xs)
  show ?case
  proof (cases "Q x")
    case True
    then have "xs @ [x] = xs @ last (filter Q (xs @ [x])) # []" by simp
    with True show ?thesis by fastforce
  next
    case False
    with snoc.prems have "filter Q xs \<noteq> []" by simp
    then obtain ys zs where "xs = ys @ last (filter Q xs) # zs" "Q (last (filter Q xs))"
      "\<forall>z\<in>set zs. \<not> Q z"
      using snoc.IH by blast
    with False have "xs @ [x] = ys @ last (filter Q (xs @ [x])) # (zs @ [x])"
      "Q (last (filter Q (xs @ [x])))" "\<forall>z\<in>set (zs @ [x]). \<not> Q z"
      by auto
    then show ?thesis by blast
  qed
qed

lemma last_filter_concat:
  "filter Q (concat (map g ks)) \<noteq> [] \<Longrightarrow>
     \<exists>ks1 k ks2. ks = ks1 @ k # ks2 \<and> filter Q (g k) \<noteq> [] \<and>
        last (filter Q (concat (map g ks))) = last (filter Q (g k)) \<and>
        (\<forall>k'\<in>set ks2. filter Q (g k') = [])"
proof (induction ks rule: rev_induct)
  case Nil
  then show ?case by simp
next
  case (snoc k ks)
  show ?case
  proof (cases "filter Q (g k) = []")
    case False
    then have "last (filter Q (concat (map g (ks @ [k])))) = last (filter Q (g k))"
      by simp
    with False have "ks @ [k] = ks @ k # [] \<and> filter Q (g k) \<noteq> [] \<and>
        last (filter Q (concat (map g (ks @ [k])))) = last (filter Q (g k)) \<and>
        (\<forall>k'\<in>set []. filter Q (g k') = [])"
      by simp
    then show ?thesis by blast
  next
    case True
    with snoc.prems have "filter Q (concat (map g ks)) \<noteq> []" by simp
    then obtain ks1 k0 ks2 where "ks = ks1 @ k0 # ks2" "filter Q (g k0) \<noteq> []"
      "last (filter Q (concat (map g ks))) = last (filter Q (g k0))"
      "\<forall>k'\<in>set ks2. filter Q (g k') = []"
      using snoc.IH by blast
    with True have "ks @ [k] = ks1 @ k0 # (ks2 @ [k]) \<and> filter Q (g k0) \<noteq> [] \<and>
        last (filter Q (concat (map g (ks @ [k])))) = last (filter Q (g k0)) \<and>
        (\<forall>k'\<in>set (ks2 @ [k]). filter Q (g k') = [])"
      by simp
    then show ?thesis by blast
  qed
qed

lemma sorted_split_above:
  fixes k :: int
  assumes "sorted ks" "ks = ks1 @ k # ks2" "k' \<in> set ks" "k < k'"
  shows "k' \<in> set ks2"
proof -
  from assms(1,2) have "\<forall>x\<in>set ks1. x \<le> k"
    by (auto simp: sorted_append)
  with assms(2-4) show ?thesis by auto
qed

lemma sorted_priorities: "sorted (priorities d)"
  by (simp add: priorities_def)

lemma set_priorities: "set (priorities d) = fst ` set (DAList.impl_of d)"
  by (simp add: priorities_def)

lemma bucket_member_priority:
  assumes "c \<in> set (bucket d k)"
  shows "k \<in> set (priorities d)"
proof -
  from assms obtain b where "DAList.lookup d k = Some b"
    by (cases "DAList.lookup d k") (auto simp: bucket_def)
  then have "(k, b) \<in> set (DAList.impl_of d)"
    by (simp add: lookup_iff_item)
  then have "k \<in> fst ` set (DAList.impl_of d)"
    by force
  then show ?thesis
    by (simp add: set_priorities)
qed

lemma set_flatten_buckets: "set (flatten d) = {c. \<exists>k. c \<in> set (bucket d k)}"
proof -
  have "set (flatten d) = (\<Union>k\<in>set (priorities d). set (bucket d k))"
    by (simp add: flatten_def)
  also have "\<dots> = {c. \<exists>k. c \<in> set (bucket d k)}"
    using bucket_member_priority by auto
  finally show ?thesis .
qed

text \<open>
  A read whose suppliers all have their attribute returns the attribute of a plug that
  has no supplier after it in its bucket and none in a bucket of higher priority.
\<close>

lemma read_last_supplier:
  assumes ok: "compiled_ok (sockets w self)"
    and defined: "\<forall>c\<in>set (compiled_connections (sockets w self)). \<forall>a.
        supplies (plugs w c) name = Some a \<longrightarrow> attrs (plugs w c) a \<noteq> None"
    and some: "\<exists>c\<in>set (compiled_connections (sockets w self)). supplies (plugs w c) name \<noteq> None"
  shows "\<exists>k m a v before after.
     bucket (connections (sockets w self)) k = before @ m # after \<and>
     supplies (plugs w m) name = Some a \<and> attrs (plugs w m) a = Some v \<and>
     (\<forall>c\<in>set after. supplies (plugs w c) name = None) \<and>
     (\<forall>k' c. k < k' \<longrightarrow> c \<in> set (bucket (connections (sockets w self)) k') \<longrightarrow>
         supplies (plugs w c) name = None) \<and>
     Socket_getattr self name w = (Inr (Some v), w)"
proof -
  let ?d = "connections (sockets w self)"
  let ?cs = "compiled_connections (sockets w self)"
  let ?Q = "\<lambda>c. supplies (plugs w c) name \<noteq> None"
  from ok have cs: "?cs = concat (map (bucket ?d) (priorities ?d))"
    by (simp add: compiled_ok_def flatten_def)
  have ms: "supplying (plugs w) name ?cs = filter ?Q ?cs"
    by (simp add: supplying_def)
  from some have ne: "filter ?Q (concat (map (bucket ?d) (priorities ?d))) \<noteq> []"
    unfolding cs [symmetric] by (simp add: filter_empty_conv)
  from last_filter_concat [OF ne]
  obtain ks1 k ks2 where split: "priorities ?d = ks1 @ k # ks2"
    and kne: "filter ?Q (bucket ?d k) \<noteq> []"
    and last: "last (filter ?Q ?cs) = last (filter ?Q (bucket ?d k))"
    and above: "\<forall>k'\<in>set ks2. filter ?Q (bucket ?d k') = []"
    unfolding cs [symmetric] by blast
  define m where "m = last (filter ?Q (bucket ?d k))"
  from last_filter_split [OF kne]
  obtain before after where buck: "bucket ?d k = before @ m # after"
    and Qm: "?Q m" and after: "\<forall>z\<in>set after. \<not> ?Q z"
    unfolding m_def by blast
  from buck have "m \<in> set (bucket ?d k)" by simp
  then have "m \<in> set (flatten ?d)"
    unfolding set_flatten_buckets by blast
  with ok have mem: "m \<in> set ?cs"
    by (simp add: compiled_ok_def)
  from Qm obtain a where a: "supplies (plugs w m) name = Some a" by blast
  with defined mem obtain v where v: "attrs (plugs w m) a = Some v" by blast
  have all: "\<forall>c\<in>set (filter ?Q ?cs). attrs (plugs w c) (the (supplies (plugs w c) name)) \<noteq> None"
    using defined by auto
  from ne have ne': "filter ?Q ?cs \<noteq> []"
    unfolding cs [symmetric] .
  have lastm: "last (supplying (plugs w) name ?cs) = m"
    unfolding ms last m_def ..
  have allms: "\<forall>c\<in>set (supplying (plugs w) name ?cs).
      attrs (plugs w c) (the (supplies (plugs w c) name)) \<noteq> None"
    using all unfolding ms .
  have nems: "supplying (plugs w) name ?cs \<noteq> []"
    using ne' unfolding ms .
  have "Socket_getattr self name w =
      (Inr (attrs (plugs w m) (the (supplies (plugs w m) name))), w)"
    using nems allms by (simp add: Socket_getattr_cases Let_def lastm)
  with a v have read: "Socket_getattr self name w = (Inr (Some v), w)"
    by simp
  have higher: "supplies (plugs w c) name = None"
    if "k < k'" "c \<in> set (bucket ?d k')" for k' c
  proof -
    from that(2) have "k' \<in> set (priorities ?d)"
      by (rule bucket_member_priority)
    with split that(1) have "k' \<in> set ks2"
      using sorted_split_above [OF sorted_priorities] by blast
    with above have "filter ?Q (bucket ?d k') = []" by blast
    with that(2) show ?thesis
      by (auto simp: filter_empty_conv)
  qed
  from buck a v after higher read show ?thesis
    by blast
qed

text \<open>
  Hence a supplier at the end of its bucket, with no supplier in a higher bucket, is the
  one that is read; after two attachments at different priorities up to 1, the plug
  attached at priority 1 is such a supplier.
\<close>

lemma read_top:
  assumes ok: "compiled_ok (sockets w self)"
    and defined: "\<forall>c\<in>set (compiled_connections (sockets w self)). \<forall>a.
        supplies (plugs w c) name = Some a \<longrightarrow> attrs (plugs w c) a \<noteq> None"
    and top: "bucket (connections (sockets w self)) k = before @ [m]"
    and sup: "supplies (plugs w m) name = Some a"
    and val: "attrs (plugs w m) a = Some v"
    and higher: "\<forall>k' c. k < k' \<longrightarrow> c \<in> set (bucket (connections (sockets w self)) k') \<longrightarrow>
        supplies (plugs w c) name = None"
  shows "Socket_getattr self name w = (Inr (Some v), w)"
proof -
  let ?d = "connections (sockets w self)"
  from top have "m \<in> set (bucket ?d k)" by simp
  then have "m \<in> set (flatten ?d)"
    unfolding set_flatten_buckets by blast
  with ok have "m \<in> set (compiled_connections (sockets w self))"
    by (simp add: compiled_ok_def)
  with sup have some: "\<exists>c\<in>set (compiled_connections (sockets w self)). supplies (plugs w c) name \<noteq> None"
    by force
  from read_last_supplier [OF ok defined some]
  obtain k0 m0 a0 v0 before0 after0 where
    buck0: "bucket ?d k0 = before0 @ m0 # after0"
    and sup0: "supplies (plugs w m0) name = Some a0"
    and val0: "attrs (plugs w m0) a0 = Some v0"
    and after0: "\<forall>c\<in>set after0. supplies (plugs w c) name = None"
    and higher0: "\<forall>k' c. k0 < k' \<longrightarrow> c \<in> set (bucket ?d k') \<longrightarrow> supplies (plugs w c) name = None"
    and read: "Socket_getattr self name w = (Inr (Some v0), w)"
    by blast
  have "\<not> k0 < k"
  proof
    assume "k0 < k"
    with higher0 \<open>m \<in> set (bucket ?d k)\<close> have "supplies (plugs w m) name = None" by blast
    with sup show False by simp
  qed
  moreover have "\<not> k < k0"
  proof
    assume "k < k0"
    moreover from buck0 have "m0 \<in> set (bucket ?d k0)" by simp
    ultimately have "supplies (plugs w m0) name = None" using higher by blast
    with sup0 show False by simp
  qed
  ultimately have "k0 = k" by simp
  with buck0 top have eq: "before0 @ m0 # after0 = before @ [m]" by simp
  have "after0 = []"
  proof (rule ccontr)
    assume ne: "after0 \<noteq> []"
    then have "last (before0 @ m0 # after0) = last after0" by simp
    with eq have "m = last after0" by simp
    with ne have "m \<in> set after0" by simp
    with after0 have "supplies (plugs w m) name = None" by blast
    with sup show False by simp
  qed
  with eq have "m0 = m" by simp
  with sup sup0 val val0 have "v0 = v" by simp
  with read show ?thesis by simp
qed

lemma connect_base_bucket:
  "bucket (connections (sockets (snd (connect Plug_methods self plug priority w)) self)) k =
     (if k = priority then bucket (connections (sockets w self)) priority @ [plug]
      else bucket (connections (sockets w self)) k)"
  by (simp add: bucket_def [of "connections (sockets (snd (connect Plug_methods self plug priority w)) self)"]
      connect_base_lookup) (simp add: bucket_def)

lemma connect_base_supplies [simp]:
  "supplies (plugs (snd (connect Plug_methods self plug priority w)) c) = supplies (plugs w c)"
  by (simp add: connect_base_plugs)

lemma connect_base_attrs [simp]:
  "attrs (plugs (snd (connect Plug_methods self plug priority w)) c) = attrs (plugs w c)"
  by (simp add: connect_base_plugs)

lemma compiled_ok_buckets:
  "compiled_ok S \<Longrightarrow> set (compiled_connections S) = {c. \<exists>k. c \<in> set (bucket (connections S) k)}"
  by (simp add: compiled_ok_def set_flatten_buckets)

lemma read_after_two_connects:
  fixes p q :: int
  assumes pq: "p \<noteq> q" "p \<le> 1" "q \<le> 1" "p = 1 \<and> X = B \<or> q = 1 \<and> Y = B"
    and above: "\<forall>k c. 1 < k \<longrightarrow> c \<in> set (bucket (connections (sockets w self)) k) \<longrightarrow>
        supplies (plugs w c) name = None"
    and defined: "\<forall>k c a. c \<in> set (bucket (connections (sockets w self)) k) \<longrightarrow>
        supplies (plugs w c) name = Some a \<longrightarrow> attrs (plugs w c) a \<noteq> None"
    and X: "\<forall>a. supplies (plugs w X) name = Some a \<longrightarrow> attrs (plugs w X) a \<noteq> None"
    and Y: "\<forall>a. supplies (plugs w Y) name = Some a \<longrightarrow> attrs (plugs w Y) a \<noteq> None"
    and B: "supplies (plugs w B) name = Some a" "attrs (plugs w B) a = Some v"
  shows "Socket_getattr self name
           (snd (connect Plug_methods self Y q (snd (connect Plug_methods self X p w)))) =
         (Inr (Some v), snd (connect Plug_methods self Y q (snd (connect Plug_methods self X p w))))"
proof -
  let ?w1 = "snd (connect Plug_methods self X p w)"
  let ?w2 = "snd (connect Plug_methods self Y q ?w1)"
  let ?d = "connections (sockets w self)"
  have buck: "bucket (connections (sockets ?w2 self)) k =
      (if k = q then (if q = p then bucket ?d p @ [X] else bucket ?d q) @ [Y]
       else if k = p then bucket ?d p @ [X] else bucket ?d k)" for k
    by (simp add: connect_base_bucket)
  have ok: "compiled_ok (sockets ?w2 self)"
    by (rule connect_base_ok)
  have def2: "\<forall>c\<in>set (compiled_connections (sockets ?w2 self)). \<forall>a.
      supplies (plugs ?w2 c) name = Some a \<longrightarrow> attrs (plugs ?w2 c) a \<noteq> None"
    using defined X Y pq(1)
    by (auto simp: compiled_ok_buckets [OF ok] buck split: if_splits)
  from pq obtain before where top: "bucket (connections (sockets ?w2 self)) 1 = before @ [B]"
    by (auto simp: buck)
  have higher: "\<forall>k' c. 1 < k' \<longrightarrow> c \<in> set (bucket (connections (sockets ?w2 self)) k') \<longrightarrow>
      supplies (plugs ?w2 c) name = None"
    using above pq(2,3) by (auto simp: buck)
  have sup2: "supplies (plugs ?w2 B) name = Some a"
    by (simp add: B)
  have val2: "attrs (plugs ?w2 B) a = Some v"
    by (simp add: B)
  show ?thesis
    by (rule read_top [OF ok def2 top sup2 val2 higher])
qed

lemma bucket_attached: "c \<in> set (bucket (connections S) k) \<Longrightarrow> c \<in> attached S"
  unfolding attached_iff by (cases "DAList.lookup (connections S) k") (auto simp: bucket_def)

text \<open>
  Claim C1, as amended. When the resolution order is the flattened registry, some
  attached plug supplies the name, and every attached plug that supplies it has the
  mapped attribute set, a read returns the value of that attribute of one supplying plug \<open>m\<close>: no plug after \<open>m\<close> in
  its bucket supplies the name (of the suppliers at its priority it was attached last),
  and no plug in a bucket of higher priority supplies it. In particular, on a socket
  where no plug above priority 1 supplies the name and the suppliers have their
  attributes, after attaching \<open>A\<close> at priority 0 and \<open>B\<close> at priority 1, in either order,
  a read returns the value of \<open>B\<close>.
\<close>

theorem read_resolution:
  "(compiled_ok (sockets w self) \<and>
    (\<forall>c\<in>attached (sockets w self). \<forall>a.
        supplies (plugs w c) name = Some a \<longrightarrow> attrs (plugs w c) a \<noteq> None) \<and>
    (\<exists>c\<in>attached (sockets w self). supplies (plugs w c) name \<noteq> None) \<longrightarrow>
    (\<exists>k m a v before after.
       bucket (connections (sockets w self)) k = before @ m # after \<and>
       supplies (plugs w m) name = Some a \<and> attrs (plugs w m) a = Some v \<and>
       (\<forall>c\<in>set after. supplies (plugs w c) name = None) \<and>
       (\<forall>k' c. k < k' \<longrightarrow> c \<in> set (bucket (connections (sockets w self)) k') \<longrightarrow>
           supplies (plugs w c) name = None) \<and>
       Socket_getattr self name w = (Inr (Some v), w))) \<and>
   ((\<forall>k c. 1 < k \<longrightarrow> c \<in> set (bucket (connections (sockets w self)) k) \<longrightarrow>
        supplies (plugs w c) name = None) \<and>
    (\<forall>c\<in>attached (sockets w self). \<forall>a.
        supplies (plugs w c) name = Some a \<longrightarrow> attrs (plugs w c) a \<noteq> None) \<and>
    supplies (plugs w A) name = Some aA \<and> attrs (plugs w A) aA = Some vA \<and>
    supplies (plugs w B) name = Some aB \<and> attrs (plugs w B) aB = Some vB \<longrightarrow>
    fst (Socket_getattr self name
          (snd (connect Plug_methods self B 1 (snd (connect Plug_methods self A 0 w))))) =
      Inr (Some vB) \<and>
    fst (Socket_getattr self name
          (snd (connect Plug_methods self A 0 (snd (connect Plug_methods self B 1 w))))) =
      Inr (Some vB))"
proof (intro conjI impI)
  assume h: "compiled_ok (sockets w self) \<and>
    (\<forall>c\<in>attached (sockets w self). \<forall>a.
        supplies (plugs w c) name = Some a \<longrightarrow> attrs (plugs w c) a \<noteq> None) \<and>
    (\<exists>c\<in>attached (sockets w self). supplies (plugs w c) name \<noteq> None)"
  then have eq: "set (compiled_connections (sockets w self)) = attached (sockets w self)"
    by (simp add: compiled_ok_attached)
  from h show "\<exists>k m a v before after.
       bucket (connections (sockets w self)) k = before @ m # after \<and>
       supplies (plugs w m) name = Some a \<and> attrs (plugs w m) a = Some v \<and>
       (\<forall>c\<in>set after. supplies (plugs w c) name = None) \<and>
       (\<forall>k' c. k < k' \<longrightarrow> c \<in> set (bucket (connections (sockets w self)) k') \<longrightarrow>
           supplies (plugs w c) name = None) \<and>
       Socket_getattr self name w = (Inr (Some v), w)"
    using read_last_supplier [of w self name] unfolding eq by blast
next
  assume h: "(\<forall>k c. 1 < k \<longrightarrow> c \<in> set (bucket (connections (sockets w self)) k) \<longrightarrow>
        supplies (plugs w c) name = None) \<and>
    (\<forall>c\<in>attached (sockets w self). \<forall>a.
        supplies (plugs w c) name = Some a \<longrightarrow> attrs (plugs w c) a \<noteq> None) \<and>
    supplies (plugs w A) name = Some aA \<and> attrs (plugs w A) aA = Some vA \<and>
    supplies (plugs w B) name = Some aB \<and> attrs (plugs w B) aB = Some vB"
  then have above: "\<forall>k c. 1 < k \<longrightarrow> c \<in> set (bucket (connections (sockets w self)) k) \<longrightarrow>
        supplies (plugs w c) name = None"
    and A: "\<forall>a. supplies (plugs w A) name = Some a \<longrightarrow> attrs (plugs w A) a \<noteq> None"
    and B: "\<forall>a. supplies (plugs w B) name = Some a \<longrightarrow> attrs (plugs w B) a \<noteq> None"
    and Bs: "supplies (plugs w B) name = Some aB" and Bv: "attrs (plugs w B) aB = Some vB"
    by simp_all
  from h have defined: "\<forall>k c a. c \<in> set (bucket (connections (sockets w self)) k) \<longrightarrow>
        supplies (plugs w c) name = Some a \<longrightarrow> attrs (plugs w c) a \<noteq> None"
    using bucket_attached by blast
  have "Socket_getattr self name
          (snd (connect Plug_methods self B 1 (snd (connect Plug_methods self A 0 w)))) =
        (Inr (Some vB), snd (connect Plug_methods self B 1 (snd (connect Plug_methods self A 0 w))))"
    by (rule read_after_two_connects [OF _ _ _ _ above defined A B Bs Bv]) simp_all
  then show "fst (Socket_getattr self name
          (snd (connect Plug_methods self B 1 (snd (connect Plug_methods self A 0 w))))) =
      Inr (Some vB)"
    by simp
  have "Socket_getattr self name
          (snd (connect Plug_methods self A 0 (snd (connect Plug_methods self B 1 w)))) =
        (Inr (Some vB), snd (connect Plug_methods self A 0 (snd (connect Plug_methods self B 1 w))))"
    by (rule read_after_two_connects [OF _ _ _ _ above defined B A Bs Bv]) simp_all
  then show "fst (Socket_getattr self name
          (snd (connect Plug_methods self A 0 (snd (connect Plug_methods self B 1 w))))) =
      Inr (Some vB)"
    by simp
qed

text \<open>
  Plug 1 (\<^verbatim>\<open>x = 3\<close>) at priority 0 and plug 2 (\<^verbatim>\<open>x = 7\<close>) at priority 1 read as 7 in both
  attach orders; both at priority 0, with plug 1 attached last, read as 3.
\<close>

theorem read_resolution_witness:
  "fst (Socket_getattr 0 ''x''
     (snd (connect Plug_methods 0 2 1 (snd (connect Plug_methods 0 1 0 two_suppliers))))) =
     Inr (Some 7) \<and>
   fst (Socket_getattr 0 ''x''
     (snd (connect Plug_methods 0 1 0 (snd (connect Plug_methods 0 2 1 two_suppliers))))) =
     Inr (Some 7) \<and>
   fst (Socket_getattr 0 ''x''
     (snd (connect Plug_methods 0 1 0 (snd (connect Plug_methods 0 2 0 two_suppliers))))) =
     Inr (Some 3)"
proof -
  let ?w = "snd (connect Plug_methods 0 1 0 (snd (connect Plug_methods 0 2 0 two_suppliers)))"
  have fresh: "(\<forall>k c. 1 < k \<longrightarrow> c \<in> set (bucket (connections (sockets two_suppliers 0)) k) \<longrightarrow>
        supplies (plugs two_suppliers c) ''x'' = None) \<and>
    (\<forall>c\<in>attached (sockets two_suppliers 0). \<forall>a.
        supplies (plugs two_suppliers c) ''x'' = Some a \<longrightarrow> attrs (plugs two_suppliers c) a \<noteq> None) \<and>
    supplies (plugs two_suppliers 1) ''x'' = Some ''x'' \<and> attrs (plugs two_suppliers 1) ''x'' = Some 3 \<and>
    supplies (plugs two_suppliers 2) ''x'' = Some ''x'' \<and> attrs (plugs two_suppliers 2) ''x'' = Some 7"
    by (simp add: two_suppliers_def run_defs)
  have tie: "compiled_ok (sockets ?w 0) \<and>
    (\<forall>c\<in>attached (sockets ?w 0). \<forall>a.
        supplies (plugs ?w c) ''x'' = Some a \<longrightarrow> attrs (plugs ?w c) a \<noteq> None) \<and>
    (\<exists>c\<in>attached (sockets ?w 0). supplies (plugs ?w c) ''x'' \<noteq> None)"
    by (simp add: two_suppliers_def run_defs)
  from read_resolution [of two_suppliers 0 "''x''" 1 "''x''" 3 2 "''x''" 7] fresh
  have orders: "fst (Socket_getattr 0 ''x''
     (snd (connect Plug_methods 0 2 1 (snd (connect Plug_methods 0 1 0 two_suppliers))))) =
     Inr (Some 7) \<and>
   fst (Socket_getattr 0 ''x''
     (snd (connect Plug_methods 0 1 0 (snd (connect Plug_methods 0 2 1 two_suppliers))))) =
     Inr (Some 7)"
    by blast
  from read_resolution [of ?w 0 "''x''" 1 "''x''" 3 2 "''x''" 7] tie
  obtain v where "Socket_getattr 0 ''x'' ?w = (Inr (Some v), ?w)"
    by blast
  moreover have "fst (Socket_getattr 0 ''x'' ?w) = Inr (Some 3)"
    by (simp add: two_suppliers_def run_defs)
  ultimately show ?thesis
    using orders by simp
qed

text \<open>
  The claim as stated (for every name that some plug supplies) fails when a plug of
  lower priority supplies the name without having the attribute: plug 1 at priority 0
  called \<^verbatim>\<open>supply('x')\<close> and never set \<^verbatim>\<open>x\<close>, plug 2 at priority 1 has \<^verbatim>\<open>x = 7\<close>, and
  the read raises \<open>AttributeError\<close> instead of returning 7, because \<^verbatim>\<open>__getattr__\<close>
  reads the attribute of every supplier on its way to the last.
\<close>

theorem read_unset_attribute_raises:
  "fst (Socket_getattr 0 ''x''
     (snd (script [Plug_supply 1 ''x'' None, Plug_supply 2 ''x'' None, assign 2 ''x'' 7,
                   connect Plug_methods 0 1 0, connect Plug_methods 0 2 1] fresh_world))) =
   Inl AttributeError"
  by (simp add: run_defs)

end
